theory Spec2Isabelle
  imports Complex_Main "HOL-Library.AList"
begin

section \<open>JavaScript values read by the alert evaluator\<close>

text \<open>
  The evaluator compares JavaScript Numbers with \<open>>=\<close> and \<open><=\<close> and applies
  \<open>Math.abs\<close>. A finite Number is modelled by the real number it denotes (the
  comparison of two doubles is the comparison of their values), and NaN and the two
  infinities are values of their own. A field of a document or of a price record is
  a Number, \<open>null\<close>, or missing (\<open>undefined\<close>).
\<close>

datatype number = NaN | NegInf | Fin real | PosInf

datatype jsval = Undefined | Null | Number number

text \<open>ToNumber: \<open>undefined\<close> becomes NaN, \<open>null\<close> becomes 0.\<close>

fun ToNumber :: "jsval \<Rightarrow> number" where
  "ToNumber Undefined = NaN"
| "ToNumber Null = Fin 0"
| "ToNumber (Number n) = n"

text \<open>
  The abstract relational comparison \<open>x < y\<close> on Numbers; \<open>None\<close> is the
  result "undefined" that a NaN operand gives.
\<close>

fun num_lt :: "number \<Rightarrow> number \<Rightarrow> bool option" where
  "num_lt NaN _ = None"
| "num_lt _ NaN = None"
| "num_lt NegInf NegInf = Some False"
| "num_lt NegInf _ = Some True"
| "num_lt _ NegInf = Some False"
| "num_lt PosInf _ = Some False"
| "num_lt (Fin x) PosInf = Some True"
| "num_lt (Fin x) (Fin y) = Some (x < y)"

text \<open>\<open>a >= b\<close> is "not (a < b)", and false when that is undefined; \<open>a <= b\<close>
  is "not (b < a)", likewise.\<close>

definition js_ge :: "jsval \<Rightarrow> jsval \<Rightarrow> bool" where
  "js_ge a b = (case num_lt (ToNumber a) (ToNumber b) of None \<Rightarrow> False | Some r \<Rightarrow> \<not> r)"

definition js_le :: "jsval \<Rightarrow> jsval \<Rightarrow> bool" where
  "js_le a b = (case num_lt (ToNumber b) (ToNumber a) of None \<Rightarrow> False | Some r \<Rightarrow> \<not> r)"

fun num_abs :: "number \<Rightarrow> number" where
  "num_abs NaN = NaN"
| "num_abs NegInf = PosInf"
| "num_abs PosInf = PosInf"
| "num_abs (Fin x) = Fin \<bar>x\<bar>"

definition Math_abs :: "jsval \<Rightarrow> jsval" where
  "Math_abs v = Number (num_abs (ToNumber v))"

text \<open>Truthiness, as in \<open>if (currentData.price)\<close> and \<open>x || 0\<close>.\<close>

fun truthy :: "jsval \<Rightarrow> bool" where
  "truthy Undefined = False"
| "truthy Null = False"
| "truthy (Number NaN) = False"
| "truthy (Number (Fin x)) = (x \<noteq> 0)"
| "truthy (Number _) = True"

definition js_or :: "jsval \<Rightarrow> jsval \<Rightarrow> jsval" where
  "js_or a b = (if truthy a then a else b)"

section \<open>The alert document (models/Alert.js)\<close>

text \<open>
  Timestamps are milliseconds since the epoch, as \<open>Date.now()\<close> returns them.
  The schema types \<open>triggerCount\<close>, \<open>maxTriggers\<close> and the repeat interval
  (minutes) as \<open>Number\<close>, with a default and a minimum but no validator that asks
  for a whole number: each is a finite Number, whole or not, and is modelled by the
  real number it denotes. The alert's \<open>type\<close> is the string the schema stores.
  Fields that the monitor never reads (name, description, tags, priority) are left out.
  Field names are the schema's, except where two records would share one: the
  fields of a price-history entry carry the prefix \<open>h_\<close>, \<open>_id\<close> is
  \<open>alert_id\<close> or \<open>user_id\<close>, and the owner's \<open>email\<close> is \<open>user_email\<close>. The
  owner (the User model is not among the sources) is the part of it that
  \<open>populate\<close> attaches and \<open>sendAlertNotifications\<close> reads.
\<close>

record observation =
  price :: jsval
  change24h :: jsval
  volume :: jsval
  marketCap :: jsval
  lastUpdated :: int

record alert_condition =
  targetPrice :: jsval
  currentPrice :: jsval
  percentageChange :: jsval
  timeframe :: string
  volumeThreshold :: jsval
  marketCapThreshold :: jsval

record channel_state =
  enabled :: bool
  sent :: bool
  sentAt :: "int option"

record alert_notifications =
  email :: channel_state
  sms :: channel_state
  push :: channel_state

record alert_metadata =
  repeatInterval :: real
  maxTriggers :: real
  expiresAt :: "int option"

record history_entry =
  h_price :: jsval
  h_timestamp :: int
  h_source :: string

record log_entry =
  action :: string
  timestamp :: int
  details :: "(observation \<times> real) option"

record user_prefs =
  pref_email :: bool
  pref_sms :: bool
  pref_push :: bool

record user =
  user_id :: string
  user_email :: string
  phoneNumber :: "string option"
  preferences :: user_prefs

record alert =
  alert_id :: string
  userId :: "user option"
  symbol :: string
  type :: string
  condition :: alert_condition
  isActive :: bool
  isTriggered :: bool
  triggerCount :: real
  lastTriggered :: "int option"
  notifications :: alert_notifications
  metadata :: alert_metadata
  priceHistory :: "history_entry list"
  executionLog :: "log_entry list"

subsection \<open>shouldTrigger\<close>

text \<open>
  \<open>alertSchema.methods.shouldTrigger\<close>, with \<open>Date.now()\<close> as the argument
  \<open>now\<close>. Reading a field of \<open>this.condition\<close>, \<open>this.metadata\<close> or of the
  price record never throws (a missing field reads as \<open>undefined\<close>), and neither do
  the comparisons, so the function has no error branch.
\<close>

definition expired :: "alert \<Rightarrow> int \<Rightarrow> bool" where
  "expired a now = (case expiresAt (metadata a) of None \<Rightarrow> False | Some e \<Rightarrow> e < now)"

text \<open>The \<open>switch (this.type)\<close> statement at the end of \<open>shouldTrigger\<close>.\<close>

definition kind_condition :: "alert \<Rightarrow> observation \<Rightarrow> bool" where
  "kind_condition a currentData =
    (if type a = ''price_above'' then
       js_ge (price currentData) (targetPrice (condition a))
     else if type a = ''price_below'' then
       js_le (price currentData) (targetPrice (condition a))
     else if type a = ''price_change'' then
       js_ge (Math_abs (change24h currentData)) (Math_abs (percentageChange (condition a)))
     else if type a = ''volume_spike'' then
       js_ge (volume currentData) (volumeThreshold (condition a))
     else if type a = ''market_cap_change'' then
       js_ge (marketCap currentData) (marketCapThreshold (condition a))
     else False)"

definition shouldTrigger :: "alert \<Rightarrow> observation \<Rightarrow> int \<Rightarrow> bool" where
  "shouldTrigger a currentData now =
    (if \<not> isActive a \<or> isTriggered a then False
     else if expired a now then False
     else if triggerCount a \<ge> maxTriggers (metadata a) then False
     else kind_condition a currentData)"

subsection \<open>addPriceHistory\<close>

text \<open>
  \<open>push\<close> the entry (its timestamp defaults to the time of the push), then keep
  \<open>slice(-100)\<close> when the list is longer than 100.
\<close>

definition slice_last :: "nat \<Rightarrow> 'a list \<Rightarrow> 'a list" where
  "slice_last n xs = drop (length xs - n) xs"

definition addPriceHistory :: "alert \<Rightarrow> jsval \<Rightarrow> string \<Rightarrow> int \<Rightarrow> alert" where
  "addPriceHistory a p src now =
    (let h = priceHistory a @ [\<lparr>h_price = p, h_timestamp = now, h_source = src\<rparr>]
     in a\<lparr>priceHistory := (if length h > 100 then slice_last 100 h else h)\<rparr>)"

text \<open>A sequence of calls, each with its price, source and time.\<close>

fun addPriceHistory_all :: "alert \<Rightarrow> (jsval \<times> string \<times> int) list \<Rightarrow> alert" where
  "addPriceHistory_all a [] = a"
| "addPriceHistory_all a ((p, src, now) # cs) = addPriceHistory_all (addPriceHistory a p src now) cs"

definition entry_of :: "jsval \<times> string \<times> int \<Rightarrow> history_entry" where
  "entry_of c = (case c of (p, src, now) \<Rightarrow> \<lparr>h_price = p, h_timestamp = now, h_source = src\<rparr>)"

section \<open>The alert monitor (AlertService) and the notification service\<close>

text \<open>
  Alert documents are JavaScript objects shared by reference: the index
  \<open>activeAlerts\<close> (a \<open>Map\<close> from id to document), the loop variable of
  \<open>processAlerts\<close> and the callback that \<open>trigger\<close> passes to \<open>setTimeout\<close> all
  hold the same object. The model keeps the objects in a heap and the references
  elsewhere. The \<open>Map\<close> is an association list in insertion order: \<open>set\<close> is
  \<open>AList.update\<close> and \<open>delete\<close> is \<open>AList.delete\<close>. The alert collection of the
  database is \<open>store\<close>, keyed by \<open>_id\<close> (the field \<open>alert_id\<close>).

  The calls that leave the process are answered by the environment, given as
  arguments: the price source (\<open>cryptoService.getCurrentPrices\<close>), whether a
  \<open>save()\<close> succeeds, whether the mail or SMS provider accepts a message. Time is
  the field \<open>clock\<close>; it moves only in \<open>advance\<close>, which also runs the timers
  that are due. Each callback (a price refresh, an evaluation cycle, a timer) runs
  to its end before the next one starts; in the source the test \<open>shouldTrigger\<close>
  and the assignments of \<open>trigger\<close> follow each other without an \<open>await\<close>.
\<close>

type_synonym ref = nat

datatype exn =
    SaveError | FetchError | TypeError | ReferenceError | RateLimitError string
  | NotFoundError | DbError

record api_price =
  usd :: jsval
  usd_24h_change :: jsval
  usd_24h_vol :: jsval
  usd_market_cap :: jsval

type_synonym price_source = "string list \<Rightarrow> exn + (string \<times> api_price) list"

record rate_entry =
  count :: int
  windowStart :: int

datatype channel = Email | Sms | Push

text \<open>A message handed to a provider (SendGrid, Twilio, the push stub): the channel,
  the destination, and whether the provider accepted it.\<close>

record delivery =
  d_channel :: channel
  d_to :: string
  d_ok :: bool

record monitor =
  heap :: "ref \<Rightarrow> alert option"
  next_ref :: ref
  activeAlerts :: "(string \<times> ref) list"
  priceCache :: "string \<Rightarrow> observation option"
  store :: "string \<Rightarrow> alert option"
  timers :: "(int \<times> ref) list"
  clock :: int
  console :: "string list"
  redisOpen :: bool
  rateCache :: "string \<Rightarrow> (rate_entry \<times> int) option"
  emailEnabled :: bool
  smsEnabled :: bool
  outbox :: "delivery list"

text \<open>What the environment answers during the processing of one alert.\<close>

record outcomes =
  fetched :: price_source
  historySaved :: bool
  triggerSaved :: bool
  emailDelivered :: bool
  smsDelivered :: bool
  notifySaved :: bool

subsection \<open>Exceptions\<close>

text \<open>
  An \<open>async\<close> method returns the state it leaves and the exception it throws, if
  any. \<open>andThen\<close> is sequencing inside a \<open>try\<close> block (an exception skips the
  rest); \<open>try_catch\<close> is a \<open>catch\<close> clause that logs and goes on.
\<close>

type_synonym result = "exn option \<times> monitor"

definition console_log :: "string \<Rightarrow> monitor \<Rightarrow> monitor" where
  "console_log s m = m\<lparr>console := console m @ [s]\<rparr>"

definition andThen :: "result \<Rightarrow> (monitor \<Rightarrow> result) \<Rightarrow> result" where
  "andThen x f = (case x of (None, m) \<Rightarrow> f m | (Some e, m) \<Rightarrow> (Some e, m))"

definition try_catch :: "result \<Rightarrow> string \<Rightarrow> result" where
  "try_catch x msg = (case x of (None, m) \<Rightarrow> (None, m) | (Some e, m) \<Rightarrow> (None, console_log msg m))"

subsection \<open>Document methods with effects: save, trigger, the reset timer\<close>

text \<open>\<open>doc.save()\<close> writes the document under its id, or rejects.\<close>

definition save :: "ref \<Rightarrow> bool \<Rightarrow> monitor \<Rightarrow> result" where
  "save r ok m =
    (case heap m r of
       None \<Rightarrow> (None, m)
     | Some a \<Rightarrow>
         if ok then (None, m\<lparr>store := (store m)(alert_id a \<mapsto> a)\<rparr>)
         else (Some SaveError, m))"

text \<open>
  Node's \<open>setTimeout\<close>: a delay outside 1 .. 2147483647 milliseconds is replaced
  by 1, and the timer list truncates the delay to whole milliseconds.
\<close>

definition timeoutDelay :: "real \<Rightarrow> int" where
  "timeoutDelay d = (if 1 \<le> d \<and> d \<le> 2147483647 then \<lfloor>d\<rfloor> else 1)"

definition trigger :: "ref \<Rightarrow> observation \<Rightarrow> bool \<Rightarrow> monitor \<Rightarrow> result" where
  "trigger r currentData saveOk m =
    (case heap m r of
       None \<Rightarrow> (None, m)
     | Some a \<Rightarrow>
         let a1 = a\<lparr>isTriggered := True, triggerCount := triggerCount a + 1,
                     lastTriggered := Some (clock m)\<rparr>;
             a2 = (if truthy (price currentData)
                   then a1\<lparr>condition := (condition a1)\<lparr>currentPrice := price currentData\<rparr>\<rparr>
                   else a1);
             a3 = a2\<lparr>executionLog := executionLog a2 @
                     [\<lparr>action = ''triggered'', timestamp = clock m,
                       details = Some (currentData, triggerCount a2)\<rparr>]\<rparr>;
             m1 = m\<lparr>heap := (heap m)(r \<mapsto> a3)\<rparr>;
             m2 = (if repeatInterval (metadata a3) > 0
                   then m1\<lparr>timers := timers m1 @
                          [(clock m + timeoutDelay (repeatInterval (metadata a3) * 60 * 1000), r)]\<rparr>
                   else m1)
         in save r saveOk m2)"

text \<open>The timer's callback: \<open>this.isTriggered = false; this.save()\<close>.\<close>

definition fire :: "bool \<Rightarrow> monitor \<Rightarrow> ref \<Rightarrow> monitor" where
  "fire ok m r =
    (case heap m r of
       None \<Rightarrow> m
     | Some a \<Rightarrow> snd (save r ok (m\<lparr>heap := (heap m)(r \<mapsto> a\<lparr>isTriggered := False\<rparr>)\<rparr>)))"

text \<open>The clock moves to \<open>t\<close>; the timers due by then run, earliest first.\<close>

definition advance :: "int \<Rightarrow> bool \<Rightarrow> monitor \<Rightarrow> monitor" where
  "advance t ok m =
    (if t < clock m then m
     else
       let due = sort_key fst (filter (\<lambda>x. fst x \<le> t) (timers m));
           rest = filter (\<lambda>x. \<not> fst x \<le> t) (timers m)
       in foldl (fire ok) (m\<lparr>clock := t, timers := rest\<rparr>) (map snd due))"

subsection \<open>The notification service (rate limits and the three send methods)\<close>

text \<open>
  The rate counters live in Redis, behind \<open>getCache\<close> and \<open>setCache\<close> of
  \<open>config/database\<close>. Without an open connection \<open>getCache\<close> returns \<open>null\<close>
  and \<open>setCache\<close> writes nothing, each after a warning of \<open>getRedisClient\<close>;
  neither ever throws. \<open>setCache\<close> writes with \<open>setEx\<close>: the entry is gone
  \<open>expireIn\<close> seconds after it was written. An entry of \<open>rateCache\<close> is the
  value and the time at which it expires; whether the connection is open is the
  field \<open>redisOpen\<close>.
\<close>

definition getCache :: "string \<Rightarrow> monitor \<Rightarrow> rate_entry option \<times> monitor" where
  "getCache key m =
    (if \<not> redisOpen m then (None, console_log ''Redis client not available'' m)
     else case rateCache m key of
       None \<Rightarrow> (None, m)
     | Some (v, expiry) \<Rightarrow> if clock m < expiry then (Some v, m) else (None, m))"

definition setCache :: "string \<Rightarrow> rate_entry \<Rightarrow> int \<Rightarrow> monitor \<Rightarrow> monitor" where
  "setCache key v expireIn m =
    (if \<not> redisOpen m then console_log ''Redis client not available'' m
     else m\<lparr>rateCache := (rateCache m)(key \<mapsto> (v, clock m + expireIn * 1000))\<rparr>)"

definition channel_name :: "channel \<Rightarrow> string" where
  "channel_name c = (case c of Email \<Rightarrow> ''email'' | Sms \<Rightarrow> ''sms'' | Push \<Rightarrow> ''push'')"

definition rate_limit :: "channel \<Rightarrow> int" where
  "rate_limit c = (case c of Email \<Rightarrow> 100 | Sms \<Rightarrow> 20 | Push \<Rightarrow> 200)"

definition rate_window :: "channel \<Rightarrow> int" where
  "rate_window c = 3600000"

definition rate_key :: "channel \<Rightarrow> string \<Rightarrow> string" where
  "rate_key c identifier = ''rate_limit_'' @ channel_name c @ ''_'' @ identifier"

definition checkRateLimit :: "channel \<Rightarrow> string \<Rightarrow> monitor \<Rightarrow> bool \<times> monitor" where
  "checkRateLimit c identifier m =
    (let now = clock m in
     case getCache (rate_key c identifier) m of (cached, m0) \<Rightarrow>
       let currentCount = (case cached of None \<Rightarrow> 0 | Some e \<Rightarrow> count e);
           start = (case cached of None \<Rightarrow> now | Some e \<Rightarrow> windowStart e)
       in if now - start > rate_window c then
            (True, setCache (rate_key c identifier) \<lparr>count = 0, windowStart = now\<rparr>
                     (rate_window c div 1000) m0)
          else if currentCount \<ge> rate_limit c then
            (False, console_log ''Rate limit exceeded'' m0)
          else (True, m0))"

text \<open>
  The send methods call \<open>updateRateLimit\<close> without \<open>await\<close>; it has finished
  before anything reads the same counter again. Where the warnings of a closed
  connection stand among the other console lines is not kept.
\<close>

definition updateRateLimit :: "channel \<Rightarrow> string \<Rightarrow> monitor \<Rightarrow> monitor" where
  "updateRateLimit c identifier m =
    (let now = clock m in
     case getCache (rate_key c identifier) m of (cached, m0) \<Rightarrow>
       let currentCount = (case cached of None \<Rightarrow> 0 | Some e \<Rightarrow> count e);
           start = (case cached of None \<Rightarrow> now | Some e \<Rightarrow> windowStart e)
       in setCache (rate_key c identifier) \<lparr>count = currentCount + 1, windowStart = start\<rparr>
            (rate_window c div 1000) m0)"

text \<open>
  The part the three send methods share after their rate-limit check: the \<open>try\<close>
  block hands the message for \<open>dest\<close> to the provider; on success the counter of
  \<open>identifier\<close> is updated; a provider error is caught and returned as
  \<open>{success: false}\<close>, which is not an exception. The rate-limit check stands
  before the \<open>try\<close>, so its \<open>throw\<close> leaves the method. The push stub always
  succeeds.
\<close>

definition attempt :: "channel \<Rightarrow> string \<Rightarrow> string \<Rightarrow> bool \<Rightarrow> monitor \<Rightarrow> result" where
  "attempt c identifier dest delivered m =
    (let m1 = m\<lparr>outbox := outbox m @ [\<lparr>d_channel = c, d_to = dest, d_ok = delivered\<rparr>]\<rparr>
     in if delivered then (None, console_log ''sent'' (updateRateLimit c identifier m1))
        else (None, console_log ''Error sending'' m1))"

text \<open>
  \<open>sendEmail\<close> builds the message inside its \<open>try\<close> block. For a template named
  in \<open>this.emailTemplates\<close> (the stored \<open>html\<close> is \<open>null\<close> for all five) it
  calls the template's generator, a method that returns a template literal. The
  literals of \<open>getPriceAlertEmailTemplate\<close> and
  \<open>getPortfolioUpdateEmailTemplate\<close> contain \<open>${{currentPrice}}\<close> and
  \<open>${{totalValue}}\<close>: a substitution whose expression is the object literal
  \<open>{currentPrice}\<close>, which reads a variable that is declared nowhere. Evaluating
  the literal throws a ReferenceError, which the \<open>catch\<close> clause of \<open>sendEmail\<close>
  logs and returns as \<open>{success: false}\<close>: the message never reaches the
  provider and the counter is not updated. The other three generators return their
  text.
\<close>

definition emailTemplates :: "string list" where
  "emailTemplates =
    [''welcome'', ''price_alert'', ''portfolio_update'', ''password_reset'',
     ''email_verification'']"

definition templateHtml :: "string \<Rightarrow> exn option" where
  "templateHtml template =
    (if template = ''price_alert'' \<or> template = ''portfolio_update''
     then Some ReferenceError else None)"

definition sendEmail :: "string \<Rightarrow> string option \<Rightarrow> bool \<Rightarrow> monitor \<Rightarrow> result" where
  "sendEmail dest template delivered m =
    (if \<not> emailEnabled m then (None, console_log ''Email service not enabled'' m)
     else case checkRateLimit Email dest m of
       (False, m1) \<Rightarrow> (Some (RateLimitError ''Email rate limit exceeded''), m1)
     | (True, m1) \<Rightarrow>
        (case (case template of
                 None \<Rightarrow> None
               | Some t \<Rightarrow> if t \<in> set emailTemplates then templateHtml t else None) of
           Some e \<Rightarrow> (None, console_log ''Error sending email'' m1)
         | None \<Rightarrow> attempt Email dest dest delivered m1))"

text \<open>
  \<open>formatPhoneNumber\<close>: the digits of the number, with \<open>+1\<close> in front of ten
  digits and \<open>+\<close> otherwise. \<open>sendSMS\<close> sends to the formatted number and counts
  under the number as given.
\<close>

definition formatPhoneNumber :: "string \<Rightarrow> string" where
  "formatPhoneNumber phone =
    (let digits = filter (\<lambda>c. c \<in> set ''0123456789'') phone
     in if length digits = 10 then ''+1'' @ digits
        else if length digits = 11 \<and> take 1 digits = ''1'' then ''+'' @ digits
        else if take 1 digits \<noteq> ''+'' then ''+'' @ digits
        else phone)"

definition sendSMS :: "string \<Rightarrow> bool \<Rightarrow> monitor \<Rightarrow> result" where
  "sendSMS dest delivered m =
    (if \<not> smsEnabled m then (None, console_log ''SMS service not enabled'' m)
     else case checkRateLimit Sms dest m of
       (False, m1) \<Rightarrow> (Some (RateLimitError ''SMS rate limit exceeded''), m1)
     | (True, m1) \<Rightarrow> attempt Sms dest (formatPhoneNumber dest) delivered m1)"

definition sendPushNotification :: "string \<Rightarrow> monitor \<Rightarrow> result" where
  "sendPushNotification uid m =
    (case checkRateLimit Push uid m of
       (False, m1) \<Rightarrow> (Some (RateLimitError ''Push notification rate limit exceeded''), m1)
     | (True, m1) \<Rightarrow> attempt Push uid uid True m1)"

subsection \<open>sendAlertNotifications\<close>

text \<open>
  \<open>generateAlertMessage\<close> formats numbers with \<open>toFixed\<close>, which throws a
  TypeError when called on \<open>undefined\<close> or \<open>null\<close>. The text itself is kept as the
  alert type and the numbers it shows; the digits are not rendered. The volume and
  market-cap messages divide first, so they never throw.
\<close>

definition toFixed :: "jsval \<Rightarrow> exn + jsval" where
  "toFixed v = (case v of Number n \<Rightarrow> Inr v | _ \<Rightarrow> Inl TypeError)"

definition both :: "exn + jsval \<Rightarrow> exn + jsval \<Rightarrow> exn + jsval list" where
  "both x y = (case x of Inl e \<Rightarrow> Inl e | Inr a \<Rightarrow> (case y of Inl e \<Rightarrow> Inl e | Inr b \<Rightarrow> Inr [a, b]))"

definition generateAlertMessage :: "alert \<Rightarrow> observation \<Rightarrow> exn + string \<times> jsval list" where
  "generateAlertMessage a currentData =
    (let numbers =
       (if type a = ''price_above'' \<or> type a = ''price_below'' then
          both (toFixed (price currentData)) (toFixed (targetPrice (condition a)))
        else if type a = ''price_change'' then
          both (toFixed (change24h currentData)) (toFixed (percentageChange (condition a)))
        else if type a = ''volume_spike'' then Inr [volume currentData]
        else if type a = ''market_cap_change'' then Inr [marketCap currentData]
        else (case toFixed (price currentData) of Inl e \<Rightarrow> Inl e | Inr p \<Rightarrow> Inr [p]))
     in case numbers of Inl e \<Rightarrow> Inl e | Inr ns \<Rightarrow> Inr (type a, ns))"

definition mark_sent :: "channel \<Rightarrow> ref \<Rightarrow> monitor \<Rightarrow> monitor" where
  "mark_sent c r m =
    (case heap m r of
       None \<Rightarrow> m
     | Some a \<Rightarrow>
         let n = notifications a;
             n' = (case c of
                     Email \<Rightarrow> n\<lparr>email := (email n)\<lparr>sent := True, sentAt := Some (clock m)\<rparr>\<rparr>
                   | Sms \<Rightarrow> n\<lparr>sms := (sms n)\<lparr>sent := True, sentAt := Some (clock m)\<rparr>\<rparr>
                   | Push \<Rightarrow> n\<lparr>push := (push n)\<lparr>sent := True, sentAt := Some (clock m)\<rparr>\<rparr>)
         in m\<lparr>heap := (heap m)(r \<mapsto> a\<lparr>notifications := n'\<rparr>)\<rparr>)"

text \<open>The three \<open>if\<close> statements of the \<open>try\<close> block, in the order of the source.\<close>

definition notifyEmail :: "ref \<Rightarrow> alert \<Rightarrow> user \<Rightarrow> outcomes \<Rightarrow> monitor \<Rightarrow> result" where
  "notifyEmail r a u env m =
    (if enabled (email (notifications a)) \<and> pref_email (preferences u) then
       andThen (sendEmail (user_email u) (Some ''price_alert'') (emailDelivered env) m)
         (\<lambda>m1. (None, mark_sent Email r m1))
     else (None, m))"

definition notifySms :: "ref \<Rightarrow> alert \<Rightarrow> user \<Rightarrow> outcomes \<Rightarrow> monitor \<Rightarrow> result" where
  "notifySms r a u env m =
    (case phoneNumber u of
       None \<Rightarrow> (None, m)
     | Some phone \<Rightarrow>
         if enabled (sms (notifications a)) \<and> pref_sms (preferences u) \<and> phone \<noteq> [] then
           andThen (sendSMS phone (smsDelivered env) m) (\<lambda>m1. (None, mark_sent Sms r m1))
         else (None, m))"

definition notifyPush :: "ref \<Rightarrow> alert \<Rightarrow> user \<Rightarrow> monitor \<Rightarrow> result" where
  "notifyPush r a u m =
    (if enabled (push (notifications a)) \<and> pref_push (preferences u) then
       andThen (sendPushNotification (user_id u) m) (\<lambda>m1. (None, mark_sent Push r m1))
     else (None, m))"

definition sendAlertNotifications :: "ref \<Rightarrow> observation \<Rightarrow> outcomes \<Rightarrow> monitor \<Rightarrow> result" where
  "sendAlertNotifications r currentData env m =
    (case heap m r of
       None \<Rightarrow> (None, m)
     | Some a \<Rightarrow>
        (case userId a of
           None \<Rightarrow> (None, console_log ''No user found for alert'' m)
         | Some u \<Rightarrow>
            (case generateAlertMessage a currentData of
               Inl e \<Rightarrow> (Some e, m)
             | Inr msg \<Rightarrow>
                 try_catch
                   (andThen (andThen (andThen (notifyEmail r a u env m)
                      (notifySms r a u env))
                      (notifyPush r a u))
                      (save r (notifySaved env)))
                   ''Error sending alert notifications'')))"

subsection \<open>triggerAlert, processAlert, processAlerts\<close>

text \<open>
  Publishing to the socket and \<open>updateUserStats\<close> (which catches its own errors)
  touch nothing of this state and are left out.
\<close>

definition removeIfOneShot :: "ref \<Rightarrow> monitor \<Rightarrow> result" where
  "removeIfOneShot r m =
    (case heap m r of
       None \<Rightarrow> (None, m)
     | Some a \<Rightarrow>
         let m1 = (if repeatInterval (metadata a) = 0
                   then m\<lparr>activeAlerts := AList.delete (alert_id a) (activeAlerts m)\<rparr>
                   else m)
         in (None, console_log ''Alert triggered successfully'' m1))"

text \<open>The \<open>try\<close> block of \<open>triggerAlert\<close>, then the method with its \<open>catch\<close>.\<close>

definition triggerAlert_try :: "ref \<Rightarrow> observation \<Rightarrow> outcomes \<Rightarrow> monitor \<Rightarrow> result" where
  "triggerAlert_try r currentData env m =
    andThen (andThen (trigger r currentData (triggerSaved env) (console_log ''Triggering alert'' m))
      (sendAlertNotifications r currentData env))
      (removeIfOneShot r)"

definition triggerAlert :: "ref \<Rightarrow> observation \<Rightarrow> outcomes \<Rightarrow> monitor \<Rightarrow> result" where
  "triggerAlert r currentData env m =
    try_catch (triggerAlert_try r currentData env m) ''Error triggering alert''"

definition updateAlertPriceHistory :: "ref \<Rightarrow> jsval \<Rightarrow> bool \<Rightarrow> monitor \<Rightarrow> result" where
  "updateAlertPriceHistory r cp saveOk m =
    (case heap m r of
       None \<Rightarrow> (None, m)
     | Some a \<Rightarrow>
         try_catch
           (save r saveOk
              (m\<lparr>heap := (heap m)(r \<mapsto> addPriceHistory a cp ''coingecko'' (clock m))\<rparr>))
           ''Error updating price history'')"

text \<open>
  \<open>String.prototype.toLowerCase\<close>. A \<open>char\<close> is a code unit below 256; the
  upper-case letters among these are A to Z and the letters from U+00C0 to U+00DE
  (U+00D7 is the multiplication sign), each 32 below its lower-case letter.
\<close>

definition lower_char :: "char \<Rightarrow> char" where
  "lower_char c =
    (let n = (of_char c :: nat)
     in if (65 \<le> n \<and> n \<le> 90) \<or> (192 \<le> n \<and> n \<le> 222 \<and> n \<noteq> 215)
        then char_of (n + 32) else c)"

definition toLowerCase :: "string \<Rightarrow> string" where
  "toLowerCase s = map lower_char s"

text \<open>The record that both \<open>updatePrices\<close> and \<open>processAlert\<close> put in the cache.\<close>

definition cache_entry :: "api_price \<Rightarrow> int \<Rightarrow> observation" where
  "cache_entry d now =
    \<lparr>price = usd d,
     change24h = js_or (usd_24h_change d) (Number (Fin 0)),
     volume = js_or (usd_24h_vol d) (Number (Fin 0)),
     marketCap = js_or (usd_market_cap d) (Number (Fin 0)),
     lastUpdated = now\<rparr>"

definition cache_set :: "monitor \<Rightarrow> string \<times> api_price \<Rightarrow> monitor" where
  "cache_set m kd = m\<lparr>priceCache := (priceCache m)(fst kd \<mapsto> cache_entry (snd kd) (clock m))\<rparr>"

text \<open>
  The first half of \<open>processAlert\<close>: on a cache miss, one fetch for this symbol.
  \<open>Inl\<close> is the early \<open>return\<close> after a failed fetch.
\<close>

definition ensureCached :: "string \<Rightarrow> outcomes \<Rightarrow> monitor \<Rightarrow> monitor + monitor" where
  "ensureCached sy env m =
    (case priceCache m sy of
       Some priceData \<Rightarrow> Inr m
     | None \<Rightarrow>
        (case fetched env [sy] of
           Inl e \<Rightarrow> Inl (console_log ''Error fetching price'' m)
         | Inr freshData \<Rightarrow>
            (case map_of freshData sy of
               None \<Rightarrow> Inr m
             | Some d \<Rightarrow> Inr (cache_set m (sy, d)))))"

definition evaluate :: "ref \<Rightarrow> observation \<Rightarrow> outcomes \<Rightarrow> monitor \<Rightarrow> result" where
  "evaluate r currentData env m =
    andThen (updateAlertPriceHistory r (price currentData) (historySaved env) m)
      (\<lambda>m1. case heap m1 r of
               None \<Rightarrow> (None, m1)
             | Some a \<Rightarrow>
                 if shouldTrigger a currentData (clock m1) then triggerAlert r currentData env m1
                 else (None, m1))"

definition processAlert :: "ref \<Rightarrow> outcomes \<Rightarrow> monitor \<Rightarrow> result" where
  "processAlert r env m =
    (case heap m r of
       None \<Rightarrow> (None, m)
     | Some a \<Rightarrow>
        (case ensureCached (toLowerCase (symbol a)) env m of
           Inl m1 \<Rightarrow> (None, m1)
         | Inr m1 \<Rightarrow>
            (case priceCache m1 (toLowerCase (symbol a)) of
               None \<Rightarrow> (None, m1)
             | Some currentData \<Rightarrow> evaluate r currentData env m1)))"

text \<open>
  \<open>processAlerts\<close>: a snapshot of the index, then each alert in turn inside its
  own \<open>try\<close>/\<open>catch\<close>.
\<close>

definition processOne :: "(ref \<Rightarrow> outcomes) \<Rightarrow> monitor \<Rightarrow> ref \<Rightarrow> monitor" where
  "processOne env m r = snd (try_catch (processAlert r (env r) m) ''Error processing alert'')"

definition processAlerts :: "(ref \<Rightarrow> outcomes) \<Rightarrow> monitor \<Rightarrow> result" where
  "processAlerts env m =
    (if activeAlerts m = [] then (None, m)
     else (None, foldl (processOne env) m (map snd (activeAlerts m))))"

subsection \<open>updatePrices\<close>

fun uniq :: "'a list \<Rightarrow> 'a list" where
  "uniq [] = []"
| "uniq (x # xs) = x # uniq (filter (\<lambda>y. y \<noteq> x) xs)"

definition monitored_symbols :: "monitor \<Rightarrow> string list" where
  "monitored_symbols m =
    uniq (List.map_filter (\<lambda>kr. map_option (\<lambda>a. toLowerCase (symbol a)) (heap m (snd kr)))
            (activeAlerts m))"

definition updatePrices :: "price_source \<Rightarrow> monitor \<Rightarrow> result" where
  "updatePrices fetch m =
    (if activeAlerts m = [] then (None, m)
     else if monitored_symbols m = [] then (None, m)
     else
       try_catch
         (case fetch (monitored_symbols m) of
            Inl e \<Rightarrow> (Some e, m)
          | Inr priceData \<Rightarrow> (None, console_log ''Updated prices'' (foldl cache_set m priceData)))
         ''Error updating prices'')"

subsection \<open>updateAlert\<close>

text \<open>
  \<open>Alert.findByIdAndUpdate(alertId, updateData, {new: true})\<close>: the database (it
  may fail) applies the update to the stored document, whose \<open>_id\<close> cannot change,
  and returns the new document as a fresh object, or \<open>null\<close> when there is none.
\<close>

definition findByIdAndUpdate ::
    "string \<Rightarrow> (alert \<Rightarrow> alert) \<Rightarrow> bool \<Rightarrow> monitor \<Rightarrow> (exn + ref option) \<times> monitor" where
  "findByIdAndUpdate alertId updateData dbOk m =
    (if \<not> dbOk then (Inl DbError, m)
     else case store m alertId of
       None \<Rightarrow> (Inr None, m)
     | Some d \<Rightarrow>
         let d' = (updateData d)\<lparr>alert_id := alert_id d\<rparr>
         in (Inr (Some (next_ref m)),
             m\<lparr>store := (store m)(alertId \<mapsto> d'),
               heap := (heap m)(next_ref m \<mapsto> d'),
               next_ref := Suc (next_ref m)\<rparr>))"

text \<open>\<open>updateAlert\<close> logs and rethrows whatever its \<open>try\<close> block throws.\<close>

definition updateAlert :: "string \<Rightarrow> (alert \<Rightarrow> alert) \<Rightarrow> bool \<Rightarrow> monitor \<Rightarrow> result" where
  "updateAlert alertId updateData dbOk m =
    (case findByIdAndUpdate alertId updateData dbOk m of
       (Inl e, m1) \<Rightarrow> (Some e, console_log ''Error updating alert'' m1)
     | (Inr None, m1) \<Rightarrow> (Some NotFoundError, console_log ''Error updating alert'' m1)
     | (Inr (Some r), m1) \<Rightarrow>
        (case heap m1 r of
           None \<Rightarrow> (None, m1)
         | Some a \<Rightarrow>
             if isActive a \<and> \<not> isTriggered a
             then (None, m1\<lparr>activeAlerts := AList.update alertId r (activeAlerts m1)\<rparr>)
             else (None, m1\<lparr>activeAlerts := AList.delete alertId (activeAlerts m1)\<rparr>)))"

subsection \<open>Runs of the monitor\<close>

text \<open>
  What the two interval callbacks and the passing of time do to the state, one
  event at a time.
\<close>

datatype event =
    Advance int bool
  | UpdatePrices price_source
  | ProcessAlerts "ref \<Rightarrow> outcomes"

fun step :: "monitor \<Rightarrow> event \<Rightarrow> monitor" where
  "step m (Advance t ok) = advance t ok m"
| "step m (UpdatePrices fetch) = snd (updatePrices fetch m)"
| "step m (ProcessAlerts env) = snd (processAlerts env m)"

definition run :: "monitor \<Rightarrow> event list \<Rightarrow> monitor" where
  "run m evs = foldl step m evs"

section \<open>Example documents\<close>

text \<open>
  A new alert as the schema's defaults make it (active, not triggered, no trigger
  yet, one-shot, at most one trigger, no expiry, email and push enabled), for BTC,
  and its owner as \<open>populate\<close> attaches it.
\<close>

definition example_user :: user where
  "example_user =
    \<lparr>user_id = ''u1'', user_email = ''u1@example.com'', phoneNumber = Some ''5551234567'',
     preferences = \<lparr>pref_email = True, pref_sms = True, pref_push = True\<rparr>\<rparr>"

definition default_alert :: alert where
  "default_alert =
    \<lparr>alert_id = ''a1'', userId = Some example_user, symbol = ''BTC'', type = ''price_above'',
     condition = \<lparr>targetPrice = Undefined, currentPrice = Undefined,
                  percentageChange = Undefined, timeframe = ''24h'',
                  volumeThreshold = Undefined, marketCapThreshold = Undefined\<rparr>,
     isActive = True, isTriggered = False, triggerCount = 0, lastTriggered = None,
     notifications =
       \<lparr>email = \<lparr>enabled = True, sent = False, sentAt = None\<rparr>,
        sms = \<lparr>enabled = False, sent = False, sentAt = None\<rparr>,
        push = \<lparr>enabled = True, sent = False, sentAt = None\<rparr>\<rparr>,
     metadata = \<lparr>repeatInterval = 0, maxTriggers = 1, expiresAt = None\<rparr>,
     priceHistory = [], executionLog = []\<rparr>"

definition alert_of_kind :: "string \<Rightarrow> jsval \<Rightarrow> alert" where
  "alert_of_kind k threshold =
    default_alert\<lparr>type := k,
      condition := (condition default_alert)\<lparr>targetPrice := threshold,
        percentageChange := threshold, volumeThreshold := threshold,
        marketCapThreshold := threshold\<rparr>\<rparr>"

definition observed :: "real \<Rightarrow> observation" where
  "observed x =
    \<lparr>price = Number (Fin x), change24h = Number (Fin x), volume = Number (Fin x),
     marketCap = Number (Fin x), lastUpdated = 0\<rparr>"

text \<open>
  An environment in which the price source is down and every save and delivery
  succeeds; a monitor that holds one alert, with a price for BTC in its cache.
\<close>

definition example_env :: outcomes where
  "example_env =
    \<lparr>fetched = (\<lambda>symbols. Inl FetchError), historySaved = True, triggerSaved = True,
     emailDelivered = True, smsDelivered = True, notifySaved = True\<rparr>"

definition example_monitor :: "alert \<Rightarrow> observation \<Rightarrow> monitor" where
  "example_monitor a obs =
    \<lparr>heap = [0 \<mapsto> a], next_ref = 1, activeAlerts = [(alert_id a, 0)],
     priceCache = [''btc'' \<mapsto> obs], store = [alert_id a \<mapsto> a], timers = [], clock = 0,
     console = [], redisOpen = True, rateCache = Map.empty, emailEnabled = True,
     smsEnabled = True,
     outbox = []\<rparr>"

text \<open>The alert "BTC above 45000" with a repeat interval and a trigger limit.\<close>

definition repeating :: "real \<Rightarrow> real \<Rightarrow> alert" where
  "repeating n k =
    (alert_of_kind ''price_above'' (Number (Fin 45000)))
      \<lparr>metadata := \<lparr>repeatInterval = n, maxTriggers = k, expiresAt = None\<rparr>\<rparr>"

definition cycle :: event where
  "cycle = ProcessAlerts (\<lambda>r. example_env)"




text \<open>
  Scenario 4 of the specification: the same alert with all three channels enabled.
  Its owner's phone number has received \<open>n\<close> messages since time 0, the last of
  them at minute 20; it is minute 30 now.
\<close>

definition all_channels :: alert where
  "all_channels =
    (alert_of_kind ''price_above'' (Number (Fin 45000)))
      \<lparr>notifications :=
         \<lparr>email = \<lparr>enabled = True, sent = False, sentAt = None\<rparr>,
          sms = \<lparr>enabled = True, sent = False, sentAt = None\<rparr>,
          push = \<lparr>enabled = True, sent = False, sentAt = None\<rparr>\<rparr>\<rparr>"

definition sms_sent :: "int \<Rightarrow> monitor" where
  "sms_sent n =
    (example_monitor all_channels (observed 45250))
      \<lparr>clock := 1800000,
       rateCache := [''rate_limit_sms_5551234567'' \<mapsto>
                      (\<lparr>count = n, windowStart = 0\<rparr>, 4800000)]\<rparr>"

section \<open>Predicates used in the statements\<close>

text \<open>The four checks at the head of \<open>shouldTrigger\<close> all pass.\<close>

definition passes_preconditions :: "alert \<Rightarrow> int \<Rightarrow> bool" where
  "passes_preconditions a now =
    (isActive a \<and> \<not> isTriggered a \<and> \<not> expired a now \<and>
     triggerCount a < maxTriggers (metadata a))"

text \<open>
  The notification service writes only its own state (rate counters, outbox) and the
  console.
\<close>

definition ns_only :: "monitor \<Rightarrow> monitor \<Rightarrow> bool" where
  "ns_only m m' =
    (heap m' = heap m \<and> timers m' = timers m \<and> activeAlerts m' = activeAlerts m \<and>
     clock m' = clock m \<and> store m' = store m \<and> priceCache m' = priceCache m \<and>
     next_ref m' = next_ref m)"

text \<open>
  The fields of an alert that the monitor never writes; of the condition it writes
  only \<open>currentPrice\<close>.
\<close>

definition same_setup :: "alert \<Rightarrow> alert \<Rightarrow> bool" where
  "same_setup a a' =
    (alert_id a' = alert_id a \<and> userId a' = userId a \<and> symbol a' = symbol a \<and>
     type a' = type a \<and> isActive a' = isActive a \<and> metadata a' = metadata a \<and>
     condition a' = (condition a)\<lparr>currentPrice := currentPrice (condition a')\<rparr>)"

text \<open>
  How the counter of an alert may move between two states of a run: it stays, or
  it has grown by a whole number of triggers and is below \<open>maxTriggers + 1\<close>.
\<close>

definition count_rel :: "alert \<Rightarrow> alert \<Rightarrow> bool" where
  "count_rel a a' =
    (maxTriggers (metadata a') = maxTriggers (metadata a) \<and>
     (triggerCount a' = triggerCount a \<or>
      (\<exists>n::nat. triggerCount a' = triggerCount a + 1 + real n) \<and>
       triggerCount a' < maxTriggers (metadata a) + 1))"

text \<open>A triggered alert stays triggered, with no further trigger recorded.\<close>

definition stays_triggered :: "alert \<Rightarrow> alert \<Rightarrow> bool" where
  "stays_triggered a a' =
    (isTriggered a \<longrightarrow>
       isTriggered a' \<and> triggerCount a' = triggerCount a \<and>
       lastTriggered a' = lastTriggered a \<and> executionLog a' = executionLog a)"

text \<open>What the processing of an alert (without the timer) may do to its document.\<close>

definition alert_step :: "alert \<Rightarrow> alert \<Rightarrow> bool" where
  "alert_step a a' = (same_setup a a' \<and> count_rel a a' \<and> stays_triggered a a')"

text \<open>The two documents differ in their notification flags at most.\<close>

definition notif_step :: "alert \<Rightarrow> alert \<Rightarrow> bool" where
  "notif_step a a' = (\<exists>n. a' = a\<lparr>notifications := n\<rparr>)"

text \<open>
  A step that writes only the notification flags of the alert object \<open>r\<close> and
  leaves the timers, the index and the price cache alone; what it stores under the
  alert's id is a version of that alert.
\<close>

definition quiet :: "ref \<Rightarrow> monitor \<Rightarrow> monitor \<Rightarrow> bool" where
  "quiet r m m' =
    ((\<forall>x. x \<noteq> r \<longrightarrow> heap m' x = heap m x) \<and>
     rel_option notif_step (heap m r) (heap m' r) \<and>
     clock m' = clock m \<and> next_ref m' = next_ref m \<and>
     timers m' = timers m \<and> activeAlerts m' = activeAlerts m \<and>
     priceCache m' = priceCache m \<and>
     (\<forall>k. store m' k = store m k \<or>
          (\<exists>a a'. heap m r = Some a \<and> store m' k = Some a' \<and> notif_step a a' \<and> k = alert_id a)))"

text \<open>The document \<open>a'\<close> is \<open>a\<close> after one trigger at time \<open>now\<close>.\<close>

definition triggered_from :: "alert \<Rightarrow> int \<Rightarrow> alert \<Rightarrow> bool" where
  "triggered_from a now a' =
    (same_setup a a' \<and> isTriggered a' \<and> triggerCount a' = triggerCount a + 1 \<and>
     lastTriggered a' = Some now)"

text \<open>The timer that a trigger at time \<open>now\<close> adds, if any, and its time.\<close>

definition reset_due :: "alert \<Rightarrow> int \<Rightarrow> int" where
  "reset_due a now = now + timeoutDelay (repeatInterval (metadata a) * 60 * 1000)"

definition reset_timer :: "alert \<Rightarrow> int \<Rightarrow> ref \<Rightarrow> (int \<times> ref) list" where
  "reset_timer a now r =
    (if repeatInterval (metadata a) > 0 then [(reset_due a now, r)] else [])"

text \<open>The pending timers of the alert object \<open>r\<close>.\<close>

definition timers_of :: "ref \<Rightarrow> monitor \<Rightarrow> (int \<times> ref) list" where
  "timers_of r m = filter (\<lambda>x. snd x = r) (timers m)"

text \<open>The id of each alert object; no step changes it.\<close>

definition ids :: "monitor \<Rightarrow> ref \<Rightarrow> string option" where
  "ids m x = map_option alert_id (heap m x)"

text \<open>
  What \<open>processAlert\<close> on the object \<open>r\<close> may do to the state: it writes that
  object only, adds at most one timer (and then the object was not triggered and is
  now), keeps every entry of the price cache, and removes from the index at most
  the id of \<open>r\<close>, and only if \<open>r\<close> is a one-shot alert.
\<close>

definition proc_step :: "ref \<Rightarrow> monitor \<Rightarrow> monitor \<Rightarrow> bool" where
  "proc_step r m m' =
    ((\<forall>x. x \<noteq> r \<longrightarrow> heap m' x = heap m x) \<and>
     rel_option alert_step (heap m r) (heap m' r) \<and>
     clock m' = clock m \<and>
     (\<exists>ts. timers m' = timers m @ ts \<and> (\<forall>x \<in> set ts. snd x = r) \<and> length ts \<le> 1 \<and>
        (ts \<noteq> [] \<longrightarrow>
           (\<exists>a a'. heap m r = Some a \<and> \<not> isTriggered a \<and> heap m' r = Some a' \<and>
                   isTriggered a'))) \<and>
     (\<forall>s obs. priceCache m s = Some obs \<longrightarrow> priceCache m' s = Some obs) \<and>
     (activeAlerts m' = activeAlerts m \<or>
      (\<exists>a. heap m r = Some a \<and> repeatInterval (metadata a) = 0 \<and>
           activeAlerts m' = AList.delete (alert_id a) (activeAlerts m))))"

definition evolves :: "monitor \<Rightarrow> monitor \<Rightarrow> bool" where
  "evolves m m' = (\<forall>x. rel_option count_rel (heap m x) (heap m' x))"

text \<open>
  The index as \<open>loadActiveAlerts\<close> builds it and every method keeps it: a \<open>Map\<close>
  has each key once, each entry is an object of its own, and the key of an entry is
  the id of its document.
\<close>

definition index_ok :: "monitor \<Rightarrow> bool" where
  "index_ok m =
    (distinct (map fst (activeAlerts m)) \<and> distinct (map snd (activeAlerts m)) \<and>
     (\<forall>x \<in> set (activeAlerts m). ids m (snd x) = Some (fst x)))"

text \<open>
  The timers of a state: an alert object has at most one reset pending, and only
  while it is triggered.
\<close>

definition timers_ok :: "monitor \<Rightarrow> bool" where
  "timers_ok m =
    (\<forall>r. length (timers_of r m) \<le> 1 \<and>
         (timers_of r m \<noteq> [] \<longrightarrow> (\<exists>a. heap m r = Some a \<and> isTriggered a)))"

definition well_formed :: "monitor \<Rightarrow> bool" where
  "well_formed m = (index_ok m \<and> timers_ok m)"

text \<open>
  The monitor as \<open>startMonitoring\<close> leaves it: the index is the one that
  \<open>loadActiveAlerts\<close> built, and no timer is pending (\<open>trigger\<close> holds the only
  \<open>setTimeout\<close> on an alert).
\<close>

definition started :: "monitor \<Rightarrow> bool" where
  "started m = (index_ok m \<and> timers m = [])"

text \<open>The states that the running monitor passes through.\<close>

inductive reachable :: "monitor \<Rightarrow> bool" where
  start: "started m \<Longrightarrow> reachable m"
| step: "reachable m \<Longrightarrow> reachable (step m ev)"





text \<open>
  Processing other alerts leaves the object \<open>r\<close>, its timers, its index entry
  under \<open>k\<close> and the entries of the price cache as they are.
\<close>

definition aside :: "string \<Rightarrow> ref \<Rightarrow> monitor \<Rightarrow> monitor \<Rightarrow> bool" where
  "aside k r m m' =
    (heap m' r = heap m r \<and> timers_of r m' = timers_of r m \<and> clock m' = clock m \<and>
     (\<forall>s obs. priceCache m s = Some obs \<longrightarrow> priceCache m' s = Some obs) \<and>
     ((k, r) \<in> set (activeAlerts m) \<longrightarrow> (k, r) \<in> set (activeAlerts m')) \<and>
     ids m' = ids m)"

section \<open>The evaluator\<close>

lemma js_ge_Fin: "js_ge (Number (Fin x)) (Number (Fin y)) = (y \<le> x)"
  by (auto simp: js_ge_def)

lemma js_le_Fin: "js_le (Number (Fin x)) (Number (Fin y)) = (x \<le> y)"
  by (auto simp: js_le_def)

lemma js_ge_abs_Fin:
  "js_ge (Math_abs (Number (Fin x))) (Math_abs (Number (Fin y))) = (\<bar>y\<bar> \<le> \<bar>x\<bar>)"
  by (auto simp: js_ge_def Math_abs_def)

lemma js_ge_Undefined: "js_ge v Undefined = False"
  by (cases "ToNumber v") (simp_all add: js_ge_def)

lemma js_le_Undefined: "js_le v Undefined = False"
  by (simp add: js_le_def)

lemma js_ge_abs_Undefined: "js_ge (Math_abs v) (Math_abs Undefined) = False"
  by (cases "num_abs (ToNumber v)") (simp_all add: js_ge_def Math_abs_def)

text \<open>
  C1. For an alert that passes the preconditions, \<open>shouldTrigger\<close> is the
  comparison that the \<open>switch\<close> makes for its kind, and follows the table of
  kinds. With the fields holding finite numbers: \<open>price_above\<close> triggers
  iff price \<open>\<ge>\<close> target (so equality triggers), \<open>price_below\<close> iff price
  \<open>\<le>\<close> target, \<open>price_change\<close> iff \<open>|change24h| \<ge> |percentageChange|\<close> (so a
  large negative change triggers), \<open>volume_spike\<close> iff volume \<open>\<ge>\<close> threshold,
  \<open>market_cap_change\<close> iff market cap \<open>\<ge>\<close> threshold.
\<close>

theorem shouldTrigger_kind_table:
  assumes "passes_preconditions a now"
  shows "shouldTrigger a obs now = kind_condition a obs
       \<and> (type a = ''price_above'' \<and> price obs = Number (Fin p) \<and>
            targetPrice (condition a) = Number (Fin t)
            \<longrightarrow> shouldTrigger a obs now = (p \<ge> t))
       \<and> (type a = ''price_below'' \<and> price obs = Number (Fin p) \<and>
            targetPrice (condition a) = Number (Fin t)
            \<longrightarrow> shouldTrigger a obs now = (p \<le> t))
       \<and> (type a = ''price_change'' \<and> change24h obs = Number (Fin c) \<and>
            percentageChange (condition a) = Number (Fin q)
            \<longrightarrow> shouldTrigger a obs now = (\<bar>c\<bar> \<ge> \<bar>q\<bar>))
       \<and> (type a = ''volume_spike'' \<and> volume obs = Number (Fin v) \<and>
            volumeThreshold (condition a) = Number (Fin vt)
            \<longrightarrow> shouldTrigger a obs now = (v \<ge> vt))
       \<and> (type a = ''market_cap_change'' \<and> marketCap obs = Number (Fin mc) \<and>
            marketCapThreshold (condition a) = Number (Fin mt)
            \<longrightarrow> shouldTrigger a obs now = (mc \<ge> mt))"
  using assms
  by (simp add: passes_preconditions_def shouldTrigger_def kind_condition_def
      js_ge_Fin js_le_Fin js_ge_abs_Fin)

lemma passes_alert_of_kind: "passes_preconditions (alert_of_kind k th) now"
  by (simp add: passes_preconditions_def alert_of_kind_def default_alert_def expired_def)

lemma alert_of_kind_fields:
  "type (alert_of_kind k th) = k"
  "targetPrice (condition (alert_of_kind k th)) = th"
  "percentageChange (condition (alert_of_kind k th)) = th"
  "volumeThreshold (condition (alert_of_kind k th)) = th"
  "marketCapThreshold (condition (alert_of_kind k th)) = th"
  by (simp_all add: alert_of_kind_def)

theorem shouldTrigger_kind_table_witness:
  "passes_preconditions (alert_of_kind ''price_above'' (Number (Fin 45000))) 0
   \<and> shouldTrigger (alert_of_kind ''price_above'' (Number (Fin 45000))) (observed 45000) 0
   \<and> \<not> shouldTrigger (alert_of_kind ''price_above'' (Number (Fin 45000))) (observed 44999) 0
   \<and> shouldTrigger (alert_of_kind ''price_below'' (Number (Fin 45000))) (observed 45000) 0
   \<and> \<not> shouldTrigger (alert_of_kind ''price_below'' (Number (Fin 45000))) (observed 45001) 0
   \<and> shouldTrigger (alert_of_kind ''price_change'' (Number (Fin 5))) (observed (- 6.2)) 0
   \<and> \<not> shouldTrigger (alert_of_kind ''price_change'' (Number (Fin 5))) (observed 3.1) 0
   \<and> shouldTrigger (alert_of_kind ''volume_spike'' (Number (Fin 1000000000))) (observed 1050000000) 0
   \<and> \<not> shouldTrigger (alert_of_kind ''volume_spike'' (Number (Fin 1000000000))) (observed 950000000) 0
   \<and> shouldTrigger (alert_of_kind ''market_cap_change'' (Number (Fin 7))) (observed 7) 0"
  using
    shouldTrigger_kind_table
      [where a = "alert_of_kind ''price_above'' (Number (Fin 45000))" and now = 0 and obs = "observed 45000" and p = "45000" and t = "45000",
       OF passes_alert_of_kind, THEN conjunct2]
    shouldTrigger_kind_table
      [where a = "alert_of_kind ''price_above'' (Number (Fin 45000))" and now = 0 and obs = "observed 44999" and p = "44999" and t = "45000",
       OF passes_alert_of_kind, THEN conjunct2]
    shouldTrigger_kind_table
      [where a = "alert_of_kind ''price_below'' (Number (Fin 45000))" and now = 0 and obs = "observed 45000" and p = "45000" and t = "45000",
       OF passes_alert_of_kind, THEN conjunct2]
    shouldTrigger_kind_table
      [where a = "alert_of_kind ''price_below'' (Number (Fin 45000))" and now = 0 and obs = "observed 45001" and p = "45001" and t = "45000",
       OF passes_alert_of_kind, THEN conjunct2]
    shouldTrigger_kind_table
      [where a = "alert_of_kind ''price_change'' (Number (Fin 5))" and now = 0 and obs = "observed (- 6.2)" and c = "- 6.2" and q = "5",
       OF passes_alert_of_kind, THEN conjunct2]
    shouldTrigger_kind_table
      [where a = "alert_of_kind ''price_change'' (Number (Fin 5))" and now = 0 and obs = "observed 3.1" and c = "3.1" and q = "5",
       OF passes_alert_of_kind, THEN conjunct2]
    shouldTrigger_kind_table
      [where a = "alert_of_kind ''volume_spike'' (Number (Fin 1000000000))" and now = 0 and obs = "observed 1050000000" and v = "1050000000" and vt = "1000000000",
       OF passes_alert_of_kind, THEN conjunct2]
    shouldTrigger_kind_table
      [where a = "alert_of_kind ''volume_spike'' (Number (Fin 1000000000))" and now = 0 and obs = "observed 950000000" and v = "950000000" and vt = "1000000000",
       OF passes_alert_of_kind, THEN conjunct2]
    shouldTrigger_kind_table
      [where a = "alert_of_kind ''market_cap_change'' (Number (Fin 7))" and now = 0 and obs = "observed 7" and mc = "7" and mt = "7",
       OF passes_alert_of_kind, THEN conjunct2]
  by (simp add: passes_alert_of_kind alert_of_kind_fields observed_def)

text \<open>
  C2. An alert that is inactive, or already triggered, or past its expiry, or whose
  \<open>triggerCount\<close> has reached \<open>maxTriggers\<close>, does not trigger, whatever its kind,
  its condition and the observation.
\<close>

theorem shouldTrigger_preconditions:
  assumes "\<not> isActive a \<or> isTriggered a \<or> expired a now \<or>
           triggerCount a \<ge> maxTriggers (metadata a)"
  shows "shouldTrigger a obs now = False"
  using assms by (auto simp: shouldTrigger_def)

theorem shouldTrigger_preconditions_witness:
  "shouldTrigger ((alert_of_kind ''price_above'' (Number (Fin 1)))\<lparr>isActive := False\<rparr>)
      (observed 2) 0 = False
   \<and> shouldTrigger ((alert_of_kind ''price_above'' (Number (Fin 1)))\<lparr>isTriggered := True\<rparr>)
      (observed 2) 0 = False
   \<and> shouldTrigger ((alert_of_kind ''price_above'' (Number (Fin 1)))
        \<lparr>metadata := \<lparr>repeatInterval = 0, maxTriggers = 1, expiresAt = Some 10\<rparr>\<rparr>)
      (observed 2) 11 = False
   \<and> shouldTrigger ((alert_of_kind ''price_above'' (Number (Fin 1)))\<lparr>triggerCount := 1\<rparr>)
      (observed 2) 0 = False"
proof -
  let ?a = "alert_of_kind ''price_above'' (Number (Fin 1))"
  have 1: "\<not> isActive (?a\<lparr>isActive := False\<rparr>)" by simp
  have 2: "isTriggered (?a\<lparr>isTriggered := True\<rparr>)" by simp
  have 3: "expired (?a\<lparr>metadata := \<lparr>repeatInterval = 0, maxTriggers = 1, expiresAt = Some 10\<rparr>\<rparr>) 11"
    by (simp add: expired_def)
  have 4: "triggerCount (?a\<lparr>triggerCount := 1\<rparr>) \<ge> maxTriggers (metadata (?a\<lparr>triggerCount := 1\<rparr>))"
    by (simp add: alert_of_kind_def default_alert_def)
  show ?thesis
    using shouldTrigger_preconditions [of "?a\<lparr>isActive := False\<rparr>" 0 "observed 2"]
      shouldTrigger_preconditions [of "?a\<lparr>isTriggered := True\<rparr>" 0 "observed 2"]
      shouldTrigger_preconditions
        [of "?a\<lparr>metadata := \<lparr>repeatInterval = 0, maxTriggers = 1, expiresAt = Some 10\<rparr>\<rparr>" 11 "observed 2"]
      shouldTrigger_preconditions [of "?a\<lparr>triggerCount := 1\<rparr>" 0 "observed 2"]
      1 2 3 4
    by blast
qed

text \<open>
  C9. An alert whose condition lacks the field its kind reads (the field is
  \<open>undefined\<close>), and an alert whose type is none of the five kinds, does not
  trigger, for every observation and at every time. \<open>shouldTrigger\<close> returns a
  boolean on every input: its model has no exception to return.
\<close>

theorem shouldTrigger_malformed:
  "(type a = ''price_above'' \<and> targetPrice (condition a) = Undefined
      \<longrightarrow> shouldTrigger a obs now = False)
   \<and> (type a = ''price_below'' \<and> targetPrice (condition a) = Undefined
      \<longrightarrow> shouldTrigger a obs now = False)
   \<and> (type a = ''price_change'' \<and> percentageChange (condition a) = Undefined
      \<longrightarrow> shouldTrigger a obs now = False)
   \<and> (type a = ''volume_spike'' \<and> volumeThreshold (condition a) = Undefined
      \<longrightarrow> shouldTrigger a obs now = False)
   \<and> (type a = ''market_cap_change'' \<and> marketCapThreshold (condition a) = Undefined
      \<longrightarrow> shouldTrigger a obs now = False)
   \<and> (type a \<notin> {''price_above'', ''price_below'', ''price_change'', ''volume_spike'',
                  ''market_cap_change''}
      \<longrightarrow> shouldTrigger a obs now = False)"
  by (simp add: shouldTrigger_def kind_condition_def js_ge_Undefined js_le_Undefined
      js_ge_abs_Undefined)

theorem shouldTrigger_malformed_witness:
  "shouldTrigger (alert_of_kind ''price_above'' Undefined) (observed 50000) 0 = False
   \<and> shouldTrigger (alert_of_kind ''price_below'' Undefined) (observed 50000) 0 = False
   \<and> shouldTrigger (alert_of_kind ''price_change'' Undefined) (observed 50000) 0 = False
   \<and> shouldTrigger (alert_of_kind ''volume_spike'' Undefined) (observed 50000) 0 = False
   \<and> shouldTrigger (alert_of_kind ''market_cap_change'' Undefined) (observed 50000) 0 = False
   \<and> shouldTrigger (alert_of_kind ''price_between'' (Number (Fin 1))) (observed 50000) 0 = False"
  using
    shouldTrigger_malformed [of "alert_of_kind ''price_above'' Undefined" "observed 50000" 0]
    shouldTrigger_malformed [of "alert_of_kind ''price_below'' Undefined" "observed 50000" 0]
    shouldTrigger_malformed [of "alert_of_kind ''price_change'' Undefined" "observed 50000" 0]
    shouldTrigger_malformed [of "alert_of_kind ''volume_spike'' Undefined" "observed 50000" 0]
    shouldTrigger_malformed [of "alert_of_kind ''market_cap_change'' Undefined" "observed 50000" 0]
    shouldTrigger_malformed [of "alert_of_kind ''price_between'' (Number (Fin 1))" "observed 50000" 0]
  by (simp add: alert_of_kind_fields)

section \<open>The price history\<close>

lemma slice_last_length: "length (slice_last n xs) = min n (length xs)"
  by (simp add: slice_last_def)

lemma slice_last_short: "length xs \<le> n \<Longrightarrow> slice_last n xs = xs"
  by (simp add: slice_last_def)

lemma slice_last_append: "slice_last n (slice_last n xs @ ys) = slice_last n (xs @ ys)"
  by (cases "length xs \<le> n") (auto simp: slice_last_def add.commute)

lemma priceHistory_addPriceHistory:
  "priceHistory (addPriceHistory a p src now) =
     slice_last 100 (priceHistory a @ [entry_of (p, src, now)])"
  by (simp add: addPriceHistory_def Let_def entry_of_def slice_last_short)

lemma addPriceHistory_all_slice:
  "priceHistory (addPriceHistory_all a (c # cs)) =
     slice_last 100 (priceHistory a @ map entry_of (c # cs))"
proof (induction cs arbitrary: a c)
  case Nil
  obtain p src now where c: "c = (p, src, now)" by (cases c) auto
  show ?case by (simp add: c priceHistory_addPriceHistory)
next
  case (Cons d ds)
  obtain p src now where c: "c = (p, src, now)" by (cases c) auto
  let ?a1 = "addPriceHistory a p src now"
  have "priceHistory (addPriceHistory_all a (c # d # ds)) =
        priceHistory (addPriceHistory_all ?a1 (d # ds))"
    by (simp add: c)
  also have "\<dots> = slice_last 100 (priceHistory ?a1 @ map entry_of (d # ds))"
    by (rule Cons.IH)
  also have "\<dots> = slice_last 100 (priceHistory a @ map entry_of (c # d # ds))"
    using slice_last_append [of 100 "priceHistory a @ [entry_of c]" "map entry_of (d # ds)"]
    by (simp add: c priceHistory_addPriceHistory)
  finally show ?case .
qed

text \<open>
  C7. After any non-empty sequence of \<open>addPriceHistory\<close> calls the history is the
  last 100 entries of the old history followed by the new observations in call
  order: the oldest are dropped first, and the list never has more than 100
  entries.
\<close>

theorem priceHistory_bounded_fifo:
  "priceHistory (addPriceHistory_all a (c # cs)) =
     slice_last 100 (priceHistory a @ map entry_of (c # cs))
   \<and> length (priceHistory (addPriceHistory_all a (c # cs))) =
       min 100 (length (priceHistory a) + length (c # cs))
   \<and> length (priceHistory (addPriceHistory_all a (c # cs))) \<le> 100"
proof -
  let ?h = "priceHistory a @ map entry_of (c # cs)"
  have eq: "priceHistory (addPriceHistory_all a (c # cs)) = slice_last 100 ?h"
    by (rule addPriceHistory_all_slice)
  have len: "length (slice_last 100 ?h) = min 100 (length (priceHistory a) + length (c # cs))"
    unfolding slice_last_length by simp
  show ?thesis
    unfolding eq len by simp
qed

section \<open>Evaluating the examples\<close>

lemma toLowerCase_BTC: "toLowerCase ''BTC'' = ''btc''"
  by code_simp

lemma formatPhoneNumber_example: "formatPhoneNumber ''5551234567'' = ''+15551234567''"
  by (simp add: formatPhoneNumber_def)

lemmas run_defs =
  processAlerts_def processOne_def processAlert_def ensureCached_def evaluate_def
  updateAlertPriceHistory_def addPriceHistory_def triggerAlert_def triggerAlert_try_def
  trigger_def save_def removeIfOneShot_def sendAlertNotifications_def generateAlertMessage_def
  toFixed_def both_def notifyEmail_def notifySms_def notifyPush_def sendEmail_def sendSMS_def
  sendPushNotification_def attempt_def checkRateLimit_def updateRateLimit_def mark_sent_def
  getCache_def setCache_def emailTemplates_def templateHtml_def formatPhoneNumber_example
  rate_key_def channel_name_def rate_limit_def rate_window_def
  andThen_def try_catch_def console_log_def timeoutDelay_def
  shouldTrigger_def kind_condition_def expired_def js_ge_def js_le_def Math_abs_def
  advance_def fire_def run_def

lemmas example_defs =
  example_monitor_def example_env_def repeating_def alert_of_kind_def default_alert_def
  example_user_def observed_def

section \<open>What each step of the monitor touches\<close>

text \<open>
  Frame lemmas, from the leaves up: the notification service leaves alerts, timers,
  index and store alone; every step of \<open>sendAlertNotifications\<close> is \<open>quiet\<close>;
  \<open>updateAlertPriceHistory\<close>, \<open>trigger\<close>, \<open>triggerAlert\<close> and \<open>evaluate\<close> are
  described field by field; \<open>processAlert\<close> is a \<open>proc_step\<close>.
\<close>

lemma ns_only_refl [simp]: "ns_only m m"
  by (simp add: ns_only_def)

lemma ns_only_trans: "ns_only m m1 \<Longrightarrow> ns_only m1 m2 \<Longrightarrow> ns_only m m2"
  by (simp add: ns_only_def)

lemma ns_only_console_log [simp]: "ns_only m (console_log s m)"
  by (simp add: ns_only_def console_log_def)

lemma ns_only_getCache: "ns_only m (snd (getCache k m))"
  by (simp add: ns_only_def getCache_def console_log_def split: option.splits prod.splits)

lemma ns_only_setCache: "ns_only m (setCache k v e m)"
  by (simp add: ns_only_def setCache_def console_log_def)

lemma ns_only_checkRateLimit: "ns_only m (snd (checkRateLimit c i m))"
proof (cases "getCache (rate_key c i) m")
  case (Pair cached m0)
  then have 0: "ns_only m m0" using ns_only_getCache [of m "rate_key c i"] by simp
  have "ns_only m0 (snd (checkRateLimit c i m))"
    using Pair by (simp add: checkRateLimit_def Let_def ns_only_setCache)
  with 0 show ?thesis by (rule ns_only_trans)
qed

lemma ns_only_updateRateLimit: "ns_only m (updateRateLimit c i m)"
proof (cases "getCache (rate_key c i) m")
  case (Pair cached m0)
  then have 0: "ns_only m m0" using ns_only_getCache [of m "rate_key c i"] by simp
  have "ns_only m0 (updateRateLimit c i m)"
    using Pair by (simp add: updateRateLimit_def Let_def ns_only_setCache)
  with 0 show ?thesis by (rule ns_only_trans)
qed

lemma ns_only_attempt: "ns_only m (snd (attempt c i d ok m))"
proof -
  let ?m1 = "m\<lparr>outbox := outbox m @ [\<lparr>d_channel = c, d_to = d, d_ok = ok\<rparr>]\<rparr>"
  have 1: "ns_only m ?m1" by (simp add: ns_only_def)
  have 2: "ns_only ?m1 (console_log ''sent'' (updateRateLimit c i ?m1))"
    using ns_only_updateRateLimit [of ?m1 c i] ns_only_console_log
    by (rule ns_only_trans)
  have 3: "ns_only ?m1 (console_log ''Error sending'' ?m1)" by simp
  show ?thesis
    using ns_only_trans [OF 1 2] ns_only_trans [OF 1 3]
    by (cases ok) (simp_all add: attempt_def Let_def)
qed

lemma ns_only_sendEmail: "ns_only m (snd (sendEmail d t ok m))"
proof (cases "checkRateLimit Email d m")
  case (Pair b m1)
  then have 1: "ns_only m m1" using ns_only_checkRateLimit [of m Email d] by simp
  have 2: "ns_only m (console_log s m1)" for s
    using 1 ns_only_console_log by (rule ns_only_trans)
  have 3: "ns_only m (snd (attempt Email d d ok m1))"
    using 1 ns_only_attempt by (rule ns_only_trans)
  show ?thesis
    using Pair 1 2 3 by (cases b) (auto simp: sendEmail_def split: option.splits)
qed

lemma ns_only_sendSMS: "ns_only m (snd (sendSMS d ok m))"
proof (cases "checkRateLimit Sms d m")
  case (Pair b m1)
  then have "ns_only m m1" using ns_only_checkRateLimit [of m Sms d] by simp
  then show ?thesis
    using Pair ns_only_attempt [of m1 Sms d "formatPhoneNumber d" ok]
    by (cases b) (auto simp: sendSMS_def intro: ns_only_trans)
qed

lemma ns_only_sendPush: "ns_only m (snd (sendPushNotification u m))"
proof (cases "checkRateLimit Push u m")
  case (Pair b m1)
  then have "ns_only m m1" using ns_only_checkRateLimit [of m Push u] by simp
  then show ?thesis
    using Pair ns_only_attempt [of m1 Push u u True]
    by (cases b) (auto simp: sendPushNotification_def intro: ns_only_trans)
qed

lemma same_setup_refl [simp]: "same_setup a a"
  by (simp add: same_setup_def)

lemma same_setup_trans: "same_setup a b \<Longrightarrow> same_setup b c \<Longrightarrow> same_setup a c"
  unfolding same_setup_def
  by (cases "condition a", cases "condition b", cases "condition c") auto

lemma count_rel_refl [simp]: "count_rel a a"
  by (simp add: count_rel_def)

lemma count_rel_trans:
  assumes "count_rel a b" "count_rel b c"
  shows "count_rel a c"
proof -
  have mt: "maxTriggers (metadata b) = maxTriggers (metadata a)"
      "maxTriggers (metadata c) = maxTriggers (metadata a)"
    using assms by (simp_all add: count_rel_def)
  consider "triggerCount b = triggerCount a" | "triggerCount c = triggerCount b"
    | n k :: nat where "triggerCount b = triggerCount a + 1 + real n"
        "triggerCount c = triggerCount b + 1 + real k"
        "triggerCount c < maxTriggers (metadata a) + 1"
    using assms by (auto simp: count_rel_def)
  then show ?thesis
  proof cases
    case 1
    then show ?thesis using assms by (simp add: count_rel_def)
  next
    case 2
    then show ?thesis using assms by (simp add: count_rel_def)
  next
    case 3
    have "triggerCount c = triggerCount a + 1 + real (n + k + 1)"
      using 3(1,2) by simp
    then have "\<exists>j::nat. triggerCount c = triggerCount a + 1 + real j" by blast
    then show ?thesis using 3(3) mt by (simp add: count_rel_def)
  qed
qed

lemma alert_step_refl [simp]: "alert_step a a"
  by (simp add: alert_step_def stays_triggered_def)

lemma alert_step_trans: "alert_step a b \<Longrightarrow> alert_step b c \<Longrightarrow> alert_step a c"
  unfolding alert_step_def stays_triggered_def
  by (auto intro: same_setup_trans count_rel_trans)

lemma alert_step_addPriceHistory: "alert_step a (addPriceHistory a p s n)"
  by (simp add: alert_step_def same_setup_def count_rel_def stays_triggered_def
      addPriceHistory_def Let_def)

lemma alert_step_notifications: "alert_step a (a\<lparr>notifications := n\<rparr>)"
  by (simp add: alert_step_def same_setup_def count_rel_def stays_triggered_def)

lemma notif_step_refl [simp]: "notif_step a a"
  unfolding notif_step_def by (rule exI [of _ "notifications a"]) simp

lemma notif_step_trans: "notif_step a b \<Longrightarrow> notif_step b c \<Longrightarrow> notif_step a c"
  by (auto simp: notif_step_def)

lemma notif_step_alert_step: "notif_step a b \<Longrightarrow> alert_step a b"
  by (auto simp: notif_step_def alert_step_notifications)

lemma notif_step_fields:
  "notif_step a b \<Longrightarrow> priceHistory b = priceHistory a \<and> alert_id b = alert_id a"
  by (auto simp: notif_step_def)

lemma rel_option_alert_step_refl [simp]: "rel_option alert_step x x"
  by (cases x) simp_all

lemma rel_option_notif_step_refl [simp]: "rel_option notif_step x x"
  by (cases x) simp_all

lemma quiet_refl [simp]: "quiet r m m"
  by (simp add: quiet_def)

lemma quiet_trans:
  assumes "quiet r m m1" "quiet r m1 m2"
  shows "quiet r m m2"
proof -
  have h: "rel_option notif_step (heap m r) (heap m2 r)"
    using assms
    by (cases "heap m r"; cases "heap m1 r"; cases "heap m2 r")
       (auto simp: quiet_def intro: notif_step_trans)
  have s: "store m2 k = store m k \<or>
          (\<exists>a a'. heap m r = Some a \<and> store m2 k = Some a' \<and> notif_step a a' \<and> k = alert_id a)" for k
  proof -
    from assms(2) have "store m2 k = store m1 k \<or>
          (\<exists>a a'. heap m1 r = Some a \<and> store m2 k = Some a' \<and> notif_step a a' \<and> k = alert_id a)"
      by (simp add: quiet_def)
    then show ?thesis
    proof
      assume "store m2 k = store m1 k"
      then show ?thesis using assms(1) by (auto simp: quiet_def)
    next
      assume "\<exists>a a'. heap m1 r = Some a \<and> store m2 k = Some a' \<and> notif_step a a' \<and> k = alert_id a"
      then obtain a1 a' where a1: "heap m1 r = Some a1" "store m2 k = Some a'" "notif_step a1 a'" "k = alert_id a1"
        by blast
      from assms(1) a1(1) obtain a where a: "heap m r = Some a" "notif_step a a1"
        by (cases "heap m r") (auto simp: quiet_def)
      have "alert_id a1 = alert_id a" using a(2) by (simp add: notif_step_fields)
      with a a1 show ?thesis by (auto intro: notif_step_trans)
    qed
  qed
  show ?thesis
    using assms h s by (simp add: quiet_def)
qed

lemma quiet_ns_only: "ns_only m m' \<Longrightarrow> quiet r m m'"
  by (simp add: quiet_def ns_only_def)

lemma quiet_console_log [simp]: "quiet r m (console_log s m)"
  by (rule quiet_ns_only) simp

lemma quiet_save: "quiet r m (snd (save r ok m))"
  by (cases "heap m r") (auto simp: quiet_def save_def)

lemma quiet_mark_sent: "quiet r m (mark_sent c r m)"
  by (cases "heap m r"; cases c)
     (auto simp: quiet_def mark_sent_def Let_def notif_step_def)

lemma quiet_andThen:
  assumes "quiet r m (snd x)" "\<And>m1. quiet r m1 (snd (f m1))"
  shows "quiet r m (snd (andThen x f))"
proof (cases x)
  case (Pair e m1)
  then show ?thesis
    using assms(1) assms(2) [of m1]
    by (cases e) (auto simp: andThen_def intro: quiet_trans)
qed

lemma quiet_try_catch: "quiet r m (snd x) \<Longrightarrow> quiet r m (snd (try_catch x msg))"
  by (cases x; cases "fst x") (auto simp: try_catch_def intro: quiet_trans [OF _ quiet_console_log])

lemma quiet_notifyEmail: "quiet r m (snd (notifyEmail r a u env m))"
  unfolding notifyEmail_def
  by (auto intro!: quiet_andThen simp: quiet_mark_sent quiet_ns_only ns_only_sendEmail)

lemma quiet_notifySms: "quiet r m (snd (notifySms r a u env m))"
  unfolding notifySms_def
  by (auto intro!: quiet_andThen simp: quiet_mark_sent quiet_ns_only ns_only_sendSMS split: option.splits)

lemma quiet_notifyPush: "quiet r m (snd (notifyPush r a u m))"
  unfolding notifyPush_def
  by (auto intro!: quiet_andThen simp: quiet_mark_sent quiet_ns_only ns_only_sendPush)

lemma quiet_sendAlertNotifications: "quiet r m (snd (sendAlertNotifications r cd env m))"
  unfolding sendAlertNotifications_def
  by (auto intro!: quiet_try_catch quiet_andThen quiet_notifyEmail quiet_notifySms
        quiet_notifyPush quiet_save split: option.splits sum.splits)

lemma save_fields [simp]:
  "heap (snd (save r ok m)) = heap m"
  "timers (snd (save r ok m)) = timers m"
  "activeAlerts (snd (save r ok m)) = activeAlerts m"
  "clock (snd (save r ok m)) = clock m"
  "priceCache (snd (save r ok m)) = priceCache m"
  by (simp_all add: save_def split: option.splits)

lemma console_log_fields [simp]:
  "heap (console_log s m) = heap m"
  "timers (console_log s m) = timers m"
  "activeAlerts (console_log s m) = activeAlerts m"
  "clock (console_log s m) = clock m"
  "store (console_log s m) = store m"
  "priceCache (console_log s m) = priceCache m"
  by (simp_all add: console_log_def)

lemma updateAlertPriceHistory_effect:
  assumes "heap m r = Some a"
  shows "fst (updateAlertPriceHistory r p ok m) = None"
    and "heap (snd (updateAlertPriceHistory r p ok m)) =
           (heap m)(r \<mapsto> addPriceHistory a p ''coingecko'' (clock m))"
    and "timers (snd (updateAlertPriceHistory r p ok m)) = timers m"
    and "clock (snd (updateAlertPriceHistory r p ok m)) = clock m"
    and "activeAlerts (snd (updateAlertPriceHistory r p ok m)) = activeAlerts m"
    and "priceCache (snd (updateAlertPriceHistory r p ok m)) = priceCache m"
  using assms
  by (cases ok; simp add: updateAlertPriceHistory_def save_def try_catch_def)+

lemma trigger_effect:
  assumes "heap m r = Some a"
  shows "\<exists>a'. heap (snd (trigger r cd ok m)) r = Some a' \<and> triggered_from a (clock m) a' \<and>
           priceHistory a' = priceHistory a \<and>
           (fst (trigger r cd ok m) = None \<longrightarrow> store (snd (trigger r cd ok m)) (alert_id a) = Some a')"
    and "x \<noteq> r \<Longrightarrow> heap (snd (trigger r cd ok m)) x = heap m x"
    and "timers (snd (trigger r cd ok m)) = timers m @ reset_timer a (clock m) r"
    and "clock (snd (trigger r cd ok m)) = clock m"
    and "activeAlerts (snd (trigger r cd ok m)) = activeAlerts m"
    and "k \<noteq> alert_id a \<Longrightarrow> store (snd (trigger r cd ok m)) k = store m k"
    and "store m k \<noteq> None \<Longrightarrow> store (snd (trigger r cd ok m)) k \<noteq> None"
    and "priceCache (snd (trigger r cd ok m)) = priceCache m"
  using assms
  by (auto simp: trigger_def Let_def save_def triggered_from_def same_setup_def reset_timer_def
      reset_due_def)

lemma triggered_from_step:
  "triggered_from a now b \<Longrightarrow> alert_step b c \<Longrightarrow> triggered_from a now c"
  unfolding triggered_from_def alert_step_def stays_triggered_def
  by (auto intro: same_setup_trans)

lemma removeIfOneShot_effect:
  assumes "heap m r = Some a"
  shows "fst (removeIfOneShot r m) = None"
    and "heap (snd (removeIfOneShot r m)) = heap m"
    and "timers (snd (removeIfOneShot r m)) = timers m"
    and "clock (snd (removeIfOneShot r m)) = clock m"
    and "store (snd (removeIfOneShot r m)) = store m"
    and "activeAlerts (snd (removeIfOneShot r m)) =
          (if repeatInterval (metadata a) = 0 then AList.delete (alert_id a) (activeAlerts m)
           else activeAlerts m)"
    and "priceCache (snd (removeIfOneShot r m)) = priceCache m"
  using assms by (simp_all add: removeIfOneShot_def Let_def)

lemma triggerAlert_effect:
  assumes a: "heap m r = Some a"
  shows "\<exists>a'. heap (snd (triggerAlert r cd env m)) r = Some a' \<and> triggered_from a (clock m) a' \<and>
           priceHistory a' = priceHistory a"
    and "x \<noteq> r \<Longrightarrow> heap (snd (triggerAlert r cd env m)) x = heap m x"
    and "timers (snd (triggerAlert r cd env m)) = timers m @ reset_timer a (clock m) r"
    and "clock (snd (triggerAlert r cd env m)) = clock m"
    and "fst (triggerAlert r cd env m) = None"
    and "k \<noteq> alert_id a \<Longrightarrow> store (snd (triggerAlert r cd env m)) k = store m k"
    and "fst (triggerAlert_try r cd env m) = None \<Longrightarrow>
          (\<exists>s. store (snd (triggerAlert r cd env m)) (alert_id a) = Some s \<and>
               triggered_from a (clock m) s) \<and>
          activeAlerts (snd (triggerAlert r cd env m)) =
            (if repeatInterval (metadata a) = 0 then AList.delete (alert_id a) (activeAlerts m)
             else activeAlerts m)"
    and "activeAlerts (snd (triggerAlert r cd env m)) = activeAlerts m \<or>
         (repeatInterval (metadata a) = 0 \<and>
          activeAlerts (snd (triggerAlert r cd env m)) = AList.delete (alert_id a) (activeAlerts m))"
    and "store m k \<noteq> None \<Longrightarrow> store (snd (triggerAlert r cd env m)) k \<noteq> None"
    and "priceCache (snd (triggerAlert r cd env m)) = priceCache m"
proof -
  let ?m0 = "console_log ''Triggering alert'' m"
  obtain e1 m1 where t: "trigger r cd (triggerSaved env) ?m0 = (e1, m1)"
    by (cases "trigger r cd (triggerSaved env) ?m0")
  have a0: "heap ?m0 r = Some a" using a by simp
  from trigger_effect(1) [OF a0, of cd "triggerSaved env"] t
  obtain a1 where a1: "heap m1 r = Some a1" "triggered_from a (clock m) a1"
      "e1 = None \<longrightarrow> store m1 (alert_id a) = Some a1" and ph1: "priceHistory a1 = priceHistory a"
    by auto
  have h1: "\<And>x. x \<noteq> r \<Longrightarrow> heap m1 x = heap m x"
    using trigger_effect(2) [OF a0, of _ cd "triggerSaved env"] t by simp
  have t1: "timers m1 = timers m @ reset_timer a (clock m) r"
    using trigger_effect(3) [OF a0, of cd "triggerSaved env"] t by simp
  have c1: "clock m1 = clock m"
    using trigger_effect(4) [OF a0, of cd "triggerSaved env"] t by simp
  have i1: "activeAlerts m1 = activeAlerts m"
    using trigger_effect(5) [OF a0, of cd "triggerSaved env"] t by simp
  have s1: "\<And>k. k \<noteq> alert_id a \<Longrightarrow> store m1 k = store m k"
    using trigger_effect(6) [OF a0, of _ cd "triggerSaved env"] t by simp
  have p1: "priceCache m1 = priceCache m"
    using trigger_effect(8) [OF a0, of cd "triggerSaved env"] t by simp
  have id1: "alert_id a1 = alert_id a" "metadata a1 = metadata a"
    using a1(2) by (simp_all add: triggered_from_def same_setup_def)
  obtain e2 m2 where s: "sendAlertNotifications r cd env m1 = (e2, m2)"
    by (cases "sendAlertNotifications r cd env m1")
  have q: "quiet r m1 m2"
    using quiet_sendAlertNotifications [of r m1 cd env] s by simp
  from q a1(1) obtain a2 where a2: "heap m2 r = Some a2" "notif_step a1 a2"
    by (cases "heap m2 r") (auto simp: quiet_def)
  have tf2: "triggered_from a (clock m) a2"
    using a1(2) notif_step_alert_step [OF a2(2)] by (rule triggered_from_step)
  have ph2: "priceHistory a2 = priceHistory a"
    using notif_step_fields [OF a2(2)] ph1 by simp
  have id2: "alert_id a2 = alert_id a" "metadata a2 = metadata a"
    using tf2 by (simp_all add: triggered_from_def same_setup_def)
  have h2: "\<And>x. x \<noteq> r \<Longrightarrow> heap m2 x = heap m x"
    using q h1 by (simp add: quiet_def)
  have f2: "timers m2 = timers m @ reset_timer a (clock m) r" "clock m2 = clock m"
      "activeAlerts m2 = activeAlerts m" "priceCache m2 = priceCache m"
    using q t1 c1 i1 p1 by (simp_all add: quiet_def)
  have s2: "store m2 k = store m k" if "k \<noteq> alert_id a" for k
  proof -
    from q have "store m2 k = store m1 k \<or>
        (\<exists>b b'. heap m1 r = Some b \<and> store m2 k = Some b' \<and> notif_step b b' \<and> k = alert_id b)"
      by (simp add: quiet_def)
    then have "store m2 k = store m1 k"
      using that a1(1) id1 by auto
    then show ?thesis using s1 [OF that] by simp
  qed
  have s2': "e1 = None \<Longrightarrow> \<exists>s. store m2 (alert_id a) = Some s \<and> triggered_from a (clock m) s"
  proof -
    assume "e1 = None"
    then have st: "store m1 (alert_id a) = Some a1" using a1(3) by simp
    from q have "store m2 (alert_id a) = store m1 (alert_id a) \<or>
        (\<exists>b b'. heap m1 r = Some b \<and> store m2 (alert_id a) = Some b' \<and> notif_step b b' \<and>
                alert_id a = alert_id b)"
      by (simp add: quiet_def)
    then show ?thesis
      using st a1(1,2) by (auto intro: triggered_from_step notif_step_alert_step)
  qed
  have r3: "removeIfOneShot r m2 = (None, snd (removeIfOneShot r m2))"
    using removeIfOneShot_effect(1) [OF a2(1)] by (cases "removeIfOneShot r m2") simp
  let ?m3 = "snd (removeIfOneShot r m2)"
  have try_eq: "triggerAlert_try r cd env m =
      (case e1 of Some e \<Rightarrow> (Some e, m1) | None \<Rightarrow>
        (case e2 of Some e \<Rightarrow> (Some e, m2) | None \<Rightarrow> (None, ?m3)))"
    using t s r3 by (simp add: triggerAlert_try_def andThen_def split: option.splits)
  have res: "triggerAlert r cd env m =
      (case e1 of Some e \<Rightarrow> (None, console_log ''Error triggering alert'' m1) | None \<Rightarrow>
        (case e2 of Some e \<Rightarrow> (None, console_log ''Error triggering alert'' m2)
         | None \<Rightarrow> (None, ?m3)))"
    by (simp add: triggerAlert_def try_eq try_catch_def split: option.splits)
  show "\<exists>a'. heap (snd (triggerAlert r cd env m)) r = Some a' \<and> triggered_from a (clock m) a' \<and>
           priceHistory a' = priceHistory a"
    using a1 ph1 a2 tf2 ph2 removeIfOneShot_effect(2) [OF a2(1)]
    by (auto simp: res split: option.splits)
  show "x \<noteq> r \<Longrightarrow> heap (snd (triggerAlert r cd env m)) x = heap m x"
    using h1 h2 removeIfOneShot_effect(2) [OF a2(1)]
    by (auto simp: res split: option.splits)
  show "timers (snd (triggerAlert r cd env m)) = timers m @ reset_timer a (clock m) r"
    using t1 f2 removeIfOneShot_effect(3) [OF a2(1)]
    by (auto simp: res split: option.splits)
  show "clock (snd (triggerAlert r cd env m)) = clock m"
    using c1 f2 removeIfOneShot_effect(4) [OF a2(1)]
    by (auto simp: res split: option.splits)
  show "fst (triggerAlert r cd env m) = None"
    by (auto simp: res split: option.splits)
  show "k \<noteq> alert_id a \<Longrightarrow> store (snd (triggerAlert r cd env m)) k = store m k"
    using s1 s2 removeIfOneShot_effect(5) [OF a2(1)]
    by (auto simp: res split: option.splits)
  show "fst (triggerAlert_try r cd env m) = None \<Longrightarrow>
          (\<exists>s. store (snd (triggerAlert r cd env m)) (alert_id a) = Some s \<and>
               triggered_from a (clock m) s) \<and>
          activeAlerts (snd (triggerAlert r cd env m)) =
            (if repeatInterval (metadata a) = 0 then AList.delete (alert_id a) (activeAlerts m)
             else activeAlerts m)"
    using s2' f2(3) id2 removeIfOneShot_effect(5,6) [OF a2(1)]
    by (auto simp: res try_eq split: option.splits)
  show "activeAlerts (snd (triggerAlert r cd env m)) = activeAlerts m \<or>
         (repeatInterval (metadata a) = 0 \<and>
          activeAlerts (snd (triggerAlert r cd env m)) = AList.delete (alert_id a) (activeAlerts m))"
    using i1 f2(3) id2 removeIfOneShot_effect(6) [OF a2(1)]
    by (auto simp: res split: option.splits)
  show "store (snd (triggerAlert r cd env m)) k \<noteq> None" if k: "store m k \<noteq> None"
  proof -
    have k1: "store m1 k \<noteq> None"
      using trigger_effect(7) [OF a0, of k cd "triggerSaved env"] k t by simp
    from q have "store m2 k = store m1 k \<or> (\<exists>b. store m2 k = Some b)"
      by (auto simp: quiet_def)
    then have k2: "store m2 k \<noteq> None" using k1 by auto
    show ?thesis
      using k1 k2 removeIfOneShot_effect(5) [OF a2(1)]
      by (auto simp: res split: option.splits)
  qed
  show "priceCache (snd (triggerAlert r cd env m)) = priceCache m"
    using p1 f2(4) removeIfOneShot_effect(7) [OF a2(1)]
    by (auto simp: res split: option.splits)
qed

lemma shouldTrigger_addPriceHistory:
  "shouldTrigger (addPriceHistory a p s n) cd now = shouldTrigger a cd now"
  by (simp add: shouldTrigger_def kind_condition_def expired_def addPriceHistory_def Let_def)

lemma addPriceHistory_setup:
  "same_setup a (addPriceHistory a p s n)"
  "isTriggered (addPriceHistory a p s n) = isTriggered a"
  "triggerCount (addPriceHistory a p s n) = triggerCount a"
  "lastTriggered (addPriceHistory a p s n) = lastTriggered a"
  "metadata (addPriceHistory a p s n) = metadata a"
  "alert_id (addPriceHistory a p s n) = alert_id a"
  "symbol (addPriceHistory a p s n) = symbol a"
  by (simp_all add: same_setup_def addPriceHistory_def Let_def)

lemma triggered_from_addPriceHistory:
  "triggered_from (addPriceHistory a p s n) now a' \<Longrightarrow> triggered_from a now a'"
  unfolding triggered_from_def
  using same_setup_trans [OF addPriceHistory_setup(1)]
  by (auto simp: addPriceHistory_setup)

lemma reset_timer_addPriceHistory:
  "reset_timer (addPriceHistory a p s n) now r = reset_timer a now r"
  by (simp add: reset_timer_def reset_due_def addPriceHistory_setup)

text \<open>
  \<open>evaluate\<close>: the observation joins the price history; then the alert is
  triggered if \<open>shouldTrigger\<close> holds of it, and is otherwise left as it is.
\<close>

lemma evaluate_effect:
  assumes a: "heap m r = Some a"
  shows "fst (evaluate r cd env m) = None"
    and "x \<noteq> r \<Longrightarrow> heap (snd (evaluate r cd env m)) x = heap m x"
    and "clock (snd (evaluate r cd env m)) = clock m"
    and "priceCache (snd (evaluate r cd env m)) = priceCache m"
    and "shouldTrigger a cd (clock m) \<Longrightarrow>
          (\<exists>a'. heap (snd (evaluate r cd env m)) r = Some a' \<and> triggered_from a (clock m) a' \<and>
                priceHistory a' =
                  priceHistory (addPriceHistory a (price cd) ''coingecko'' (clock m))) \<and>
          timers (snd (evaluate r cd env m)) = timers m @ reset_timer a (clock m) r \<and>
          (activeAlerts (snd (evaluate r cd env m)) = activeAlerts m \<or>
           (repeatInterval (metadata a) = 0 \<and>
            activeAlerts (snd (evaluate r cd env m)) =
              AList.delete (alert_id a) (activeAlerts m)))"
    and "\<not> shouldTrigger a cd (clock m) \<Longrightarrow>
          heap (snd (evaluate r cd env m)) r =
            Some (addPriceHistory a (price cd) ''coingecko'' (clock m)) \<and>
          timers (snd (evaluate r cd env m)) = timers m \<and>
          activeAlerts (snd (evaluate r cd env m)) = activeAlerts m"
proof -
  let ?ah = "addPriceHistory a (price cd) ''coingecko'' (clock m)"
  let ?u = "updateAlertPriceHistory r (price cd) (historySaved env) m"
  let ?m1 = "snd ?u"
  note u = updateAlertPriceHistory_effect [OF a, of "price cd" "historySaved env"]
  have u1: "?u = (None, ?m1)" using u(1) by (cases ?u) simp
  have h1: "heap ?m1 r = Some ?ah" using u(2) by simp
  have ho: "\<And>x. x \<noteq> r \<Longrightarrow> heap ?m1 x = heap m x" using u(2) by simp
  have st: "shouldTrigger ?ah cd (clock ?m1) = shouldTrigger a cd (clock m)"
    using u(4) by (simp add: shouldTrigger_addPriceHistory)
  have ev: "evaluate r cd env m =
      (if shouldTrigger a cd (clock m) then triggerAlert r cd env ?m1 else (None, ?m1))"
    unfolding evaluate_def
    by (subst u1) (simp add: andThen_def h1 st)
  note t = triggerAlert_effect [OF h1, where cd = cd and env = env]
  show "fst (evaluate r cd env m) = None"
    using t(5) by (simp add: ev)
  show "x \<noteq> r \<Longrightarrow> heap (snd (evaluate r cd env m)) x = heap m x"
    using t(2) [where x = x] ho [of x] by (simp add: ev)
  show "clock (snd (evaluate r cd env m)) = clock m"
    using t(4) u(4) by (simp add: ev)
  show "priceCache (snd (evaluate r cd env m)) = priceCache m"
    using t(10) u(6) by (simp add: ev)
  show "(\<exists>a'. heap (snd (evaluate r cd env m)) r = Some a' \<and> triggered_from a (clock m) a' \<and>
                priceHistory a' = priceHistory ?ah) \<and>
          timers (snd (evaluate r cd env m)) = timers m @ reset_timer a (clock m) r \<and>
          (activeAlerts (snd (evaluate r cd env m)) = activeAlerts m \<or>
           (repeatInterval (metadata a) = 0 \<and>
            activeAlerts (snd (evaluate r cd env m)) =
              AList.delete (alert_id a) (activeAlerts m)))"
    if "shouldTrigger a cd (clock m)"
  proof -
    from t(1) obtain a' where a': "heap (snd (triggerAlert r cd env ?m1)) r = Some a'"
        "triggered_from ?ah (clock ?m1) a'" "priceHistory a' = priceHistory ?ah"
      by blast
    have "triggered_from a (clock m) a'"
      using a'(2) u(4) triggered_from_addPriceHistory by simp
    then show ?thesis
      using that a'(1,3) t(3) t(8) u(3,4,5)
      by (simp add: ev reset_timer_addPriceHistory addPriceHistory_setup)
  qed
  show "heap (snd (evaluate r cd env m)) r = Some ?ah \<and>
          timers (snd (evaluate r cd env m)) = timers m \<and>
          activeAlerts (snd (evaluate r cd env m)) = activeAlerts m"
    if "\<not> shouldTrigger a cd (clock m)"
    using that h1 u(3,5) by (simp add: ev)
qed

lemma alert_step_triggered_from:
  assumes "triggered_from a now a'" "\<not> isTriggered a" "triggerCount a < maxTriggers (metadata a)"
  shows "alert_step a a'"
proof -
  have "\<exists>n::nat. triggerCount a' = triggerCount a + 1 + real n"
    using assms(1) by (intro exI [of _ 0]) (simp add: triggered_from_def)
  then show ?thesis
    using assms
    by (auto simp: triggered_from_def alert_step_def count_rel_def stays_triggered_def same_setup_def)
qed

lemma shouldTrigger_guard:
  "shouldTrigger a cd now \<Longrightarrow> \<not> isTriggered a \<and> triggerCount a < maxTriggers (metadata a)"
  by (auto simp: shouldTrigger_def split: if_splits)

lemma proc_step_evaluate:
  assumes a: "heap m r = Some a"
  shows "proc_step r m (snd (evaluate r cd env m))"
proof (cases "shouldTrigger a cd (clock m)")
  case True
  note e = evaluate_effect [OF a, where cd = cd and env = env]
  from e(5) [OF True] obtain a' where a': "heap (snd (evaluate r cd env m)) r = Some a'"
      "triggered_from a (clock m) a'"
    and tm: "timers (snd (evaluate r cd env m)) = timers m @ reset_timer a (clock m) r"
    and ix: "activeAlerts (snd (evaluate r cd env m)) = activeAlerts m \<or>
           (repeatInterval (metadata a) = 0 \<and>
            activeAlerts (snd (evaluate r cd env m)) = AList.delete (alert_id a) (activeAlerts m))"
    by blast
  have g: "\<not> isTriggered a" "triggerCount a < maxTriggers (metadata a)"
    using shouldTrigger_guard [OF True] by simp_all
  have st: "alert_step a a'" using a'(2) g by (rule alert_step_triggered_from)
  have tr: "isTriggered a'" using a'(2) by (simp add: triggered_from_def)
  have ts: "(\<forall>x \<in> set (reset_timer a (clock m) r). snd x = r) \<and>
      length (reset_timer a (clock m) r) \<le> 1"
    by (simp add: reset_timer_def)
  show ?thesis
    unfolding proc_step_def
    using e(2) e(3) e(4) a a'(1) st tr g(1) tm ts ix by auto
next
  case False
  note e = evaluate_effect [OF a, where cd = cd and env = env]
  show ?thesis
    unfolding proc_step_def
    using e(2) e(3) e(4) e(6) [OF False] a alert_step_addPriceHistory by auto
qed

lemma ensureCached_fields:
  "ensureCached s env m = Inl m1 \<or> ensureCached s env m = Inr m1 \<Longrightarrow>
     heap m1 = heap m \<and> timers m1 = timers m \<and> clock m1 = clock m \<and>
     activeAlerts m1 = activeAlerts m \<and> store m1 = store m \<and>
     (\<forall>k obs. priceCache m k = Some obs \<longrightarrow> priceCache m1 k = Some obs)"
  by (auto simp: ensureCached_def cache_set_def console_log_def split: option.splits sum.splits)

lemma proc_step_same:
  "heap m1 = heap m \<Longrightarrow> timers m1 = timers m \<Longrightarrow> clock m1 = clock m \<Longrightarrow>
   activeAlerts m1 = activeAlerts m \<Longrightarrow>
   \<forall>k obs. priceCache m k = Some obs \<longrightarrow> priceCache m1 k = Some obs \<Longrightarrow>
   proc_step r m1 m2 \<Longrightarrow> proc_step r m m2"
  by (simp add: proc_step_def)

lemma proc_step_refl [simp]: "proc_step r m m"
  by (simp add: proc_step_def)

lemma proc_step_processAlert: "proc_step r m (snd (processAlert r env m))"
proof (cases "heap m r")
  case None
  then show ?thesis by (simp add: processAlert_def)
next
  case (Some a)
  show ?thesis
  proof (cases "ensureCached (toLowerCase (symbol a)) env m")
    case (Inl m1)
    then have "heap m1 = heap m \<and> timers m1 = timers m \<and> clock m1 = clock m \<and>
        activeAlerts m1 = activeAlerts m \<and>
        (\<forall>k obs. priceCache m k = Some obs \<longrightarrow> priceCache m1 k = Some obs)"
      using ensureCached_fields [of "toLowerCase (symbol a)" env m m1] by simp
    then have "proc_step r m m1" using proc_step_same [of m1 m r m1] by simp
    then show ?thesis using Some Inl by (simp add: processAlert_def)
  next
    case (Inr m1)
    then have f: "heap m1 = heap m \<and> timers m1 = timers m \<and> clock m1 = clock m \<and>
        activeAlerts m1 = activeAlerts m \<and>
        (\<forall>k obs. priceCache m k = Some obs \<longrightarrow> priceCache m1 k = Some obs)"
      using ensureCached_fields [of "toLowerCase (symbol a)" env m m1] by simp
    then have 1: "proc_step r m m1" using proc_step_same [of m1 m r m1] by simp
    have a1: "heap m1 r = Some a" using f Some by simp
    have 2: "proc_step r m (snd (evaluate r cd env m1))" for cd
      using proc_step_same [of m1 m r] f proc_step_evaluate [OF a1, of cd env] by simp
    show ?thesis
      using Some Inr 1 2 by (simp add: processAlert_def split: option.splits)
  qed
qed

lemma fst_processAlert: "fst (processAlert r env m) = None"
proof (cases "heap m r")
  case None
  then show ?thesis by (simp add: processAlert_def)
next
  case (Some a)
  have "fst (evaluate r cd env m1) = None" if "heap m1 r = Some a" for cd m1
    using evaluate_effect(1) [OF that] .
  moreover have "heap m1 r = Some a"
    if "ensureCached (toLowerCase (symbol a)) env m = Inr m1" for m1
    using ensureCached_fields [of "toLowerCase (symbol a)" env m m1] that Some by simp
  ultimately show ?thesis
    using Some by (auto simp: processAlert_def split: option.splits sum.splits)
qed

lemma processOne_eq: "processOne env m r = snd (processAlert r (env r) m)"
  using fst_processAlert [of r "env r" m]
  by (cases "processAlert r (env r) m") (simp add: processOne_def try_catch_def)

lemma proc_step_processOne: "proc_step r m (processOne env m r)"
  by (simp add: processOne_eq proc_step_processAlert)

lemma processAlert_cached:
  assumes "heap m r = Some a" "priceCache m (toLowerCase (symbol a)) = Some obs"
  shows "processAlert r env m = evaluate r obs env m"
  using assms by (simp add: processAlert_def ensureCached_def)

lemma snd_processAlerts:
  "snd (processAlerts env m) = foldl (processOne env) m (map snd (activeAlerts m))"
  by (simp add: processAlerts_def)

lemma fst_processAlerts: "fst (processAlerts env m) = None"
  by (simp add: processAlerts_def)

section \<open>Well-formed states\<close>

text \<open>
  Every state that the monitor reaches from its start is well formed: the index
  keeps its shape, and an alert object has a reset pending only while it is
  triggered, and then only one.
\<close>

lemma delete_filter: "AList.delete k al = filter (\<lambda>p. fst p \<noteq> k) al"
  by (induction al) auto

lemma proc_step_ids: "proc_step r m m' \<Longrightarrow> ids m' = ids m"
proof (rule ext)
  fix x
  assume p: "proc_step r m m'"
  show "ids m' x = ids m x"
  proof (cases "x = r")
    case True
    from p have "rel_option alert_step (heap m r) (heap m' r)" by (simp add: proc_step_def)
    then show ?thesis
      unfolding True ids_def
      by (cases "heap m r"; cases "heap m' r") (auto simp: alert_step_def same_setup_def)
  next
    case False
    with p show ?thesis by (simp add: proc_step_def ids_def)
  qed
qed

lemma index_ok_proc_step:
  assumes "index_ok m" "proc_step r m m'"
  shows "index_ok m'"
proof -
  have i: "ids m' = ids m" using assms(2) by (rule proc_step_ids)
  from assms(2) consider "activeAlerts m' = activeAlerts m"
    | k where "activeAlerts m' = AList.delete k (activeAlerts m)"
    by (auto simp: proc_step_def)
  then show ?thesis
  proof cases
    case 1
    then show ?thesis using assms(1) i by (simp add: index_ok_def)
  next
    case 2
    then show ?thesis
      using assms(1) i by (auto simp: index_ok_def delete_filter distinct_map_filter)
  qed
qed

lemma timers_ok_proc_step:
  assumes ok: "timers_ok m" and p: "proc_step x m m'"
  shows "timers_ok m'"
  unfolding timers_ok_def
proof (intro allI)
  fix r
  from p obtain ts where ts: "timers m' = timers m @ ts" "\<forall>y \<in> set ts. snd y = x"
      "length ts \<le> 1"
      "ts \<noteq> [] \<longrightarrow> (\<exists>a a'. heap m x = Some a \<and> \<not> isTriggered a \<and> heap m' x = Some a' \<and>
                         isTriggered a')"
    by (auto simp: proc_step_def)
  from ok have okr: "length (timers_of r m) \<le> 1"
      "timers_of r m \<noteq> [] \<longrightarrow> (\<exists>a. heap m r = Some a \<and> isTriggered a)"
    by (simp_all add: timers_ok_def)
  show "length (timers_of r m') \<le> 1 \<and>
        (timers_of r m' \<noteq> [] \<longrightarrow> (\<exists>a. heap m' r = Some a \<and> isTriggered a))"
  proof (cases "x = r")
    case False
    have "filter (\<lambda>y. snd y = r) ts = []"
      using ts(2) False by (auto simp: filter_empty_conv)
    then have "timers_of r m' = timers_of r m" using ts(1) by (simp add: timers_of_def)
    moreover have "heap m' r = heap m r" using p False by (simp add: proc_step_def)
    ultimately show ?thesis using okr by simp
  next
    case same: True
    have ft: "filter (\<lambda>y. snd y = r) ts = ts" using ts(2) same by simp
    have t': "timers_of r m' = timers_of r m @ ts" using ts(1) ft by (simp add: timers_of_def)
    have st: "rel_option alert_step (heap m r) (heap m' r)"
      using p same by (simp add: proc_step_def)
    show ?thesis
    proof (cases "ts = []")
      case True
      with t' have e: "timers_of r m' = timers_of r m" by simp
      have "\<exists>a. heap m' r = Some a \<and> isTriggered a" if "\<exists>a. heap m r = Some a \<and> isTriggered a"
        using st that
        by (cases "heap m r"; cases "heap m' r") (auto simp: alert_step_def stays_triggered_def)
      then show ?thesis using okr e by auto
    next
      case False
      then obtain a a' where aa: "heap m r = Some a" "\<not> isTriggered a" "heap m' r = Some a'"
          "isTriggered a'"
        using ts(4) same by auto
      then have "timers_of r m = []" using okr(2) by auto
      then show ?thesis using t' ts(3) aa(3,4) by simp
    qed
  qed
qed

lemma well_formed_processOne: "well_formed m \<Longrightarrow> well_formed (processOne env m r)"
  using index_ok_proc_step [OF _ proc_step_processOne]
    timers_ok_proc_step [OF _ proc_step_processOne]
  by (simp add: well_formed_def)

lemma well_formed_foldl_processOne:
  "well_formed m \<Longrightarrow> well_formed (foldl (processOne env) m rs)"
  by (induction rs arbitrary: m) (simp_all add: well_formed_processOne)

lemma fire_fields [simp]:
  "timers (fire ok m x) = timers m"
  "clock (fire ok m x) = clock m"
  "activeAlerts (fire ok m x) = activeAlerts m"
  "priceCache (fire ok m x) = priceCache m"
  "x \<noteq> r \<Longrightarrow> heap (fire ok m x) r = heap m r"
  "ids (fire ok m x) = ids m"
  by (auto simp: fire_def ids_def split: option.splits)

lemma foldl_fire_fields [simp]:
  "timers (foldl (fire ok) m rs) = timers m"
  "clock (foldl (fire ok) m rs) = clock m"
  "activeAlerts (foldl (fire ok) m rs) = activeAlerts m"
  "priceCache (foldl (fire ok) m rs) = priceCache m"
  "ids (foldl (fire ok) m rs) = ids m"
  by (induction rs arbitrary: m) simp_all

lemma foldl_fire_heap:
  "heap m r = Some a \<Longrightarrow>
   heap (foldl (fire ok) m rs) r = Some (if r \<in> set rs then a\<lparr>isTriggered := False\<rparr> else a)"
proof (induction rs arbitrary: m a)
  case Nil
  then show ?case by simp
next
  case (Cons x xs)
  show ?case
  proof (cases "x = r")
    case True
    have h: "heap (fire ok m r) r = Some (a\<lparr>isTriggered := False\<rparr>)"
      using Cons.prems by (simp add: fire_def)
    show ?thesis
      using Cons.IH [OF h] True by simp
  next
    case False
    have h: "heap (fire ok m x) r = Some a"
      using Cons.prems False by simp
    show ?thesis
      using Cons.IH [OF h] False by auto
  qed
qed

lemma advance_eq:
  "\<not> t < clock m \<Longrightarrow>
   advance t ok m =
     foldl (fire ok) (m\<lparr>clock := t, timers := filter (\<lambda>x. \<not> fst x \<le> t) (timers m)\<rparr>)
       (map snd (sort_key fst (filter (\<lambda>x. fst x \<le> t) (timers m))))"
  by (simp add: advance_def Let_def)

lemma timers_of_advance:
  "\<not> t < clock m \<Longrightarrow>
   timers_of r (advance t ok m) = filter (\<lambda>x. \<not> fst x \<le> t) (timers_of r m)"
  by (simp add: advance_eq timers_of_def conj_commute)

lemma timers_of_single:
  assumes "length (timers_of r m) \<le> 1" "(d, r) \<in> set (timers m)"
  shows "timers_of r m = [(d, r)]"
proof -
  have "(d, r) \<in> set (timers_of r m)" using assms(2) by (simp add: timers_of_def)
  then show ?thesis using assms(1) by (cases "timers_of r m") auto
qed

lemma due_refs:
  assumes "timers_of r m = ts"
  shows "r \<in> set (map snd (sort_key fst (filter (\<lambda>x. fst x \<le> t) (timers m)))) \<longleftrightarrow>
         (\<exists>d. (d, r) \<in> set ts \<and> d \<le> (t::int))"
proof -
  have mem: "(d, r) \<in> set (timers m) \<longleftrightarrow> (d, r) \<in> set ts" for d
    unfolding assms [symmetric] by (simp add: timers_of_def)
  have "r \<in> set (map snd (sort_key fst (filter (\<lambda>x. fst x \<le> t) (timers m)))) \<longleftrightarrow>
        (\<exists>d. (d, r) \<in> set (timers m) \<and> d \<le> t)"
    by (auto simp: image_iff)
  then show ?thesis using mem by auto
qed

lemma timers_ok_advance:
  assumes ok: "timers_ok m"
  shows "timers_ok (advance t ok' m)"
proof (cases "t < clock m")
  case True
  then show ?thesis using ok by (simp add: advance_def)
next
  case False
  show ?thesis
    unfolding timers_ok_def
  proof (intro allI conjI impI)
    fix r
    from ok have okr: "length (timers_of r m) \<le> 1"
        "timers_of r m \<noteq> [] \<longrightarrow> (\<exists>a. heap m r = Some a \<and> isTriggered a)"
      by (simp_all add: timers_ok_def)
    have "length (filter (\<lambda>x. \<not> fst x \<le> t) (timers_of r m)) \<le> length (timers_of r m)"
      by (rule length_filter_le)
    then have "length (filter (\<lambda>x. \<not> fst x \<le> t) (timers_of r m)) \<le> 1"
      using okr(1) by (rule order_trans)
    then show "length (timers_of r (advance t ok' m)) \<le> 1"
      by (simp only: timers_of_advance [OF False])
    assume "timers_of r (advance t ok' m) \<noteq> []"
    then obtain y where y: "y \<in> set (timers_of r m)" "\<not> fst y \<le> t"
      unfolding timers_of_advance [OF False] by (auto simp: filter_empty_conv)
    then have s: "timers_of r m = [y]" using okr(1) by (cases "timers_of r m") auto
    then obtain a where a: "heap m r = Some a" "isTriggered a" using okr(2) by auto
    have "r \<notin> set (map snd (sort_key fst (filter (\<lambda>x. fst x \<le> t) (timers m))))"
      using due_refs [OF s, of t] y(2) by auto
    then have "heap (advance t ok' m) r = Some a"
      unfolding advance_eq [OF False]
      using foldl_fire_heap
        [of "m\<lparr>clock := t, timers := filter (\<lambda>x. \<not> fst x \<le> t) (timers m)\<rparr>" r a ok'] a(1)
      by simp
    then show "\<exists>a. heap (advance t ok' m) r = Some a \<and> isTriggered a"
      using a(2) by simp
  qed
qed

lemma ids_clock_timers: "ids (m\<lparr>clock := t, timers := ts\<rparr>) = ids m"
  by (rule ext) (simp add: ids_def)

lemma advance_index [simp]:
  "activeAlerts (advance t ok m) = activeAlerts m"
  "priceCache (advance t ok m) = priceCache m"
  "ids (advance t ok m) = ids m"
  by (cases "t < clock m"; simp add: advance_def Let_def ids_clock_timers)+


lemma well_formed_advance: "well_formed m \<Longrightarrow> well_formed (advance t ok m)"
  by (simp add: well_formed_def timers_ok_advance index_ok_def)

lemma cache_set_fields [simp]:
  "heap (cache_set m kd) = heap m"
  "timers (cache_set m kd) = timers m"
  "clock (cache_set m kd) = clock m"
  "activeAlerts (cache_set m kd) = activeAlerts m"
  "store (cache_set m kd) = store m"
  by (simp_all add: cache_set_def)

lemma foldl_cache_set_fields [simp]:
  "heap (foldl cache_set m pd) = heap m"
  "timers (foldl cache_set m pd) = timers m"
  "clock (foldl cache_set m pd) = clock m"
  "activeAlerts (foldl cache_set m pd) = activeAlerts m"
  "store (foldl cache_set m pd) = store m"
  by (induction pd arbitrary: m) simp_all

lemma updatePrices_fields [simp]:
  "heap (snd (updatePrices fetch m)) = heap m"
  "timers (snd (updatePrices fetch m)) = timers m"
  "clock (snd (updatePrices fetch m)) = clock m"
  "activeAlerts (snd (updatePrices fetch m)) = activeAlerts m"
  "store (snd (updatePrices fetch m)) = store m"
  by (simp_all add: updatePrices_def try_catch_def split: sum.splits)

lemma well_formed_same:
  "heap m' = heap m \<Longrightarrow> timers m' = timers m \<Longrightarrow> activeAlerts m' = activeAlerts m \<Longrightarrow>
   well_formed m \<Longrightarrow> well_formed m'"
  by (simp add: well_formed_def index_ok_def timers_ok_def timers_of_def ids_def)

lemma well_formed_step: "well_formed m \<Longrightarrow> well_formed (step m ev)"
proof (cases ev)
  case (Advance t ok)
  assume "well_formed m"
  then show ?thesis using Advance by (simp add: well_formed_advance)
next
  case (UpdatePrices fetch)
  assume "well_formed m"
  then show ?thesis
    using UpdatePrices well_formed_same [of "snd (updatePrices fetch m)" m] by simp
next
  case (ProcessAlerts env)
  assume "well_formed m"
  then show ?thesis
    using ProcessAlerts by (simp add: processAlerts_def well_formed_foldl_processOne)
qed


lemma well_formed_started: "started m \<Longrightarrow> well_formed m"
  by (simp add: started_def well_formed_def timers_ok_def timers_of_def)

lemma run_append: "run m (evs @ evs') = run (run m evs) evs'"
  by (simp add: run_def)

lemma run_single: "run m [ev] = step m ev"
  by (simp add: run_def)

section \<open>The trigger counter\<close>

text \<open>
  Every event relates each alert to its later self by \<open>count_rel\<close>, which is
  reflexive and transitive; so does every run.
\<close>

lemma rel_option_count_rel_refl [simp]: "rel_option count_rel x x"
  by (cases x) simp_all

lemma evolves_refl [simp]: "evolves m m"
  by (simp add: evolves_def)
















lemma reachable_well_formed: "reachable m \<Longrightarrow> well_formed m"
  by (induction rule: reachable.induct) (simp_all add: well_formed_started well_formed_step)

lemma reachable_run: "reachable m \<Longrightarrow> reachable (run m evs)"
  unfolding run_def
  by (induction evs arbitrary: m) (simp_all add: reachable.step)

section \<open>One evaluation cycle, seen from one alert\<close>

text \<open>
  In a cycle each indexed object is processed once. Processing the others leaves
  an alert \<open>aside\<close>; its own turn is \<open>evaluate\<close> on the cached observation.
\<close>

lemma aside_refl [simp]: "aside k r m m"
  by (simp add: aside_def)

lemma aside_trans: "aside k r m m1 \<Longrightarrow> aside k r m1 m2 \<Longrightarrow> aside k r m m2"
  by (simp add: aside_def)

lemma aside_processOne:
  assumes x: "x \<noteq> r" and k: "ids m x \<noteq> Some k"
  shows "aside k r m (processOne env m x)"
proof -
  let ?m' = "processOne env m x"
  have p: "proc_step x m ?m'" by (rule proc_step_processOne)
  from p obtain ts where ts: "timers ?m' = timers m @ ts" "\<forall>y \<in> set ts. snd y = x"
    by (auto simp: proc_step_def)
  have "filter (\<lambda>y. snd y = r) ts = []"
    using ts(2) x by (auto simp: filter_empty_conv)
  then have t: "timers_of r ?m' = timers_of r m"
    using ts(1) by (simp add: timers_of_def)
  have i: "(k, r) \<in> set (activeAlerts ?m')" if kr: "(k, r) \<in> set (activeAlerts m)"
  proof -
    from p consider "activeAlerts ?m' = activeAlerts m"
      | ax where "heap m x = Some ax" "activeAlerts ?m' = AList.delete (alert_id ax) (activeAlerts m)"
      by (auto simp: proc_step_def)
    then show ?thesis
    proof cases
      case 1
      then show ?thesis using kr by simp
    next
      case 2
      have "alert_id ax \<noteq> k" using k 2(1) by (simp add: ids_def)
      then show ?thesis using kr 2(2) by (simp add: delete_filter)
    qed
  qed
  show ?thesis
    unfolding aside_def
    using p x t i proc_step_ids [OF p] by (simp add: proc_step_def)
qed

lemma aside_foldl:
  "\<forall>x \<in> set xs. x \<noteq> r \<and> ids m x \<noteq> Some k \<Longrightarrow> aside k r m (foldl (processOne env) m xs)"
proof (induction xs arbitrary: m)
  case Nil
  show ?case by simp
next
  case (Cons x xs)
  have 1: "aside k r m (processOne env m x)"
    using Cons.prems by (simp add: aside_processOne)
  then have "ids (processOne env m x) = ids m" by (simp add: aside_def)
  then have "\<forall>y \<in> set xs. y \<noteq> r \<and> ids (processOne env m x) y \<noteq> Some k"
    using Cons.prems by simp
  then have "aside k r (processOne env m x) (foldl (processOne env) (processOne env m x) xs)"
    by (rule Cons.IH)
  with 1 show ?case by (auto intro: aside_trans)
qed

lemma index_others:
  assumes "index_ok m" "(k, r) \<in> set (activeAlerts m)"
  shows "\<forall>x \<in> set (map snd (activeAlerts m)). x = r \<or> ids m x \<noteq> Some k"
proof
  fix x
  assume "x \<in> set (map snd (activeAlerts m))"
  then obtain k' where k': "(k', x) \<in> set (activeAlerts m)" by auto
  then have i: "ids m x = Some k'" using assms(1) by (auto simp: index_ok_def)
  show "x = r \<or> ids m x \<noteq> Some k"
  proof (cases "k' = k")
    case True
    have "distinct (map fst (activeAlerts m))" using assms(1) by (simp add: index_ok_def)
    then have "x = r" using k' assms(2) unfolding True by (rule eq_key_imp_eq_value)
    then show ?thesis by simp
  next
    case False
    then show ?thesis using i by simp
  qed
qed

lemma cycle_effect:
  assumes ok: "index_ok m"
    and idx: "(k, r) \<in> set (activeAlerts m)"
    and a: "heap m r = Some a"
    and c: "priceCache m (toLowerCase (symbol a)) = Some obs"
  shows "clock (snd (processAlerts env m)) = clock m"
    and "priceCache (snd (processAlerts env m)) (toLowerCase (symbol a)) = Some obs"
    and "shouldTrigger a obs (clock m) \<Longrightarrow>
          (\<exists>a'. heap (snd (processAlerts env m)) r = Some a' \<and> triggered_from a (clock m) a' \<and>
                priceHistory a' =
                  priceHistory (addPriceHistory a (price obs) ''coingecko'' (clock m))) \<and>
          timers_of r (snd (processAlerts env m)) = timers_of r m @ reset_timer a (clock m) r \<and>
          (repeatInterval (metadata a) \<noteq> 0 \<longrightarrow> (k, r) \<in> set (activeAlerts (snd (processAlerts env m))))"
    and "\<not> shouldTrigger a obs (clock m) \<Longrightarrow>
          heap (snd (processAlerts env m)) r =
            Some (addPriceHistory a (price obs) ''coingecko'' (clock m)) \<and>
          timers_of r (snd (processAlerts env m)) = timers_of r m \<and>
          (k, r) \<in> set (activeAlerts (snd (processAlerts env m)))"
proof -
  let ?rs = "map snd (activeAlerts m)"
  let ?P = "processOne env"
  have d: "distinct ?rs" using ok by (simp add: index_ok_def)
  have "r \<in> set ?rs" using idx by force
  then obtain xs ys where rs: "?rs = xs @ r # ys" by (auto dest: split_list)
  have nr: "r \<notin> set xs" "r \<notin> set ys" using d unfolding rs by auto
  have oth: "\<forall>x \<in> set ?rs. x = r \<or> ids m x \<noteq> Some k"
    using ok idx by (rule index_others)
  let ?ma = "foldl ?P m xs"
  let ?mb = "?P ?ma r"
  let ?m' = "snd (processAlerts env m)"
  have m': "?m' = foldl ?P ?mb ys"
    by (simp add: snd_processAlerts rs)
  have "\<forall>x \<in> set xs. x \<noteq> r \<and> ids m x \<noteq> Some k"
    using oth nr(1) unfolding rs by auto
  then have as1: "aside k r m ?ma" by (rule aside_foldl)
  have ha: "heap ?ma r = Some a" and ca: "priceCache ?ma (toLowerCase (symbol a)) = Some obs"
    and cla: "clock ?ma = clock m" and ia: "(k, r) \<in> set (activeAlerts ?ma)"
    and ta: "timers_of r ?ma = timers_of r m" and ida: "ids ?ma = ids m"
    using as1 a c idx by (simp_all add: aside_def)
  have mb: "?mb = snd (evaluate r obs (env r) ?ma)"
    by (simp add: processOne_eq processAlert_cached [OF ha ca])
  note e = evaluate_effect [OF ha, where cd = obs and env = "env r"]
  have idb: "ids ?mb = ids m"
    using proc_step_ids [OF proc_step_processOne [of r ?ma env]] ida by simp
  have "\<forall>x \<in> set ys. x \<noteq> r \<and> ids ?mb x \<noteq> Some k"
    using oth nr(2) unfolding rs idb by auto
  then have as2: "aside k r ?mb (foldl ?P ?mb ys)" by (rule aside_foldl)
  have clb: "clock ?mb = clock m" using e(3) cla by (simp add: mb)
  have cb: "priceCache ?mb (toLowerCase (symbol a)) = Some obs"
    using e(4) ca by (simp add: mb)
  show "clock ?m' = clock m"
    using as2 clb by (simp add: m' aside_def)
  show "priceCache ?m' (toLowerCase (symbol a)) = Some obs"
    using as2 cb by (simp add: m' aside_def)
  show "(\<exists>a'. heap ?m' r = Some a' \<and> triggered_from a (clock m) a' \<and>
                priceHistory a' =
                  priceHistory (addPriceHistory a (price obs) ''coingecko'' (clock m))) \<and>
          timers_of r ?m' = timers_of r m @ reset_timer a (clock m) r \<and>
          (repeatInterval (metadata a) \<noteq> 0 \<longrightarrow> (k, r) \<in> set (activeAlerts ?m'))"
    if tr: "shouldTrigger a obs (clock m)"
  proof -
    have tr': "shouldTrigger a obs (clock ?ma)" using tr cla by simp
    from e(5) [OF tr'] have
      h: "\<exists>a'. heap ?mb r = Some a' \<and> triggered_from a (clock m) a' \<and>
                priceHistory a' =
                  priceHistory (addPriceHistory a (price obs) ''coingecko'' (clock m))"
      and t: "timers ?mb = timers ?ma @ reset_timer a (clock m) r"
      and i: "activeAlerts ?mb = activeAlerts ?ma \<or>
           (repeatInterval (metadata a) = 0 \<and>
            activeAlerts ?mb = AList.delete (alert_id a) (activeAlerts ?ma))"
      unfolding mb cla by blast+
    have "filter (\<lambda>x. snd x = r) (reset_timer a (clock m) r) = reset_timer a (clock m) r"
      by (simp add: reset_timer_def)
    then have tb: "timers_of r ?mb = timers_of r m @ reset_timer a (clock m) r"
      using t ta by (simp add: timers_of_def)
    have ib: "repeatInterval (metadata a) \<noteq> 0 \<longrightarrow> (k, r) \<in> set (activeAlerts ?mb)"
      using i ia by auto
    show ?thesis
      using as2 h tb ib by (simp add: m' aside_def)
  qed
  show "heap ?m' r = Some (addPriceHistory a (price obs) ''coingecko'' (clock m)) \<and>
          timers_of r ?m' = timers_of r m \<and> (k, r) \<in> set (activeAlerts ?m')"
    if ntr: "\<not> shouldTrigger a obs (clock m)"
  proof -
    have ntr': "\<not> shouldTrigger a obs (clock ?ma)" using ntr cla by simp
    from e(6) [OF ntr'] have
      h: "heap ?mb r = Some (addPriceHistory a (price obs) ''coingecko'' (clock m))"
      and t: "timers ?mb = timers ?ma" and i: "activeAlerts ?mb = activeAlerts ?ma"
      unfolding mb cla by blast+
    have tb: "timers_of r ?mb = timers_of r m" using t ta by (simp add: timers_of_def)
    show ?thesis
      using as2 h tb i ia by (simp add: m' aside_def)
  qed
qed

section \<open>Repeat alerts\<close>


lemma timeoutDelay_fits: "1 \<le> d \<Longrightarrow> d \<le> 2147483647 \<Longrightarrow> timeoutDelay d = \<lfloor>d\<rfloor>"
  by (simp add: timeoutDelay_def)

















section \<open>One-shot alerts, failed refreshes, updates\<close>

text \<open>
  C5. A trigger of a one-shot alert (repeat interval 0) deletes nothing from the
  store, changes no document of another id and no index entry of another id, and
  schedules no timer. When the trigger sequence runs in full, that is, the \<open>try\<close>
  block of \<open>triggerAlert\<close> ends without an exception, the alert's id is no longer
  a key of the index, the object is not among those the next cycle processes (if
  the index held it under its own id only), and the store holds under the alert's
  id a document with the trigger recorded (triggered, count one higher, trigger
  time).
\<close>

theorem one_shot_removed_not_deleted:
  assumes a: "heap m r = Some a"
    and one: "repeatInterval (metadata a) = 0"
  shows "(fst (triggerAlert_try r cd env m) = None \<longrightarrow>
            map_of (activeAlerts (snd (triggerAlert r cd env m))) (alert_id a) = None \<and>
            ((\<forall>x \<in> set (activeAlerts m). snd x = r \<longrightarrow> fst x = alert_id a) \<longrightarrow>
               r \<notin> set (map snd (activeAlerts (snd (triggerAlert r cd env m))))) \<and>
            (\<exists>s. store (snd (triggerAlert r cd env m)) (alert_id a) = Some s \<and>
                isTriggered s \<and> triggerCount s = triggerCount a + 1 \<and>
                lastTriggered s = Some (clock m) \<and> metadata s = metadata a \<and> type s = type a))
    \<and> (\<forall>k. store m k \<noteq> None \<longrightarrow> store (snd (triggerAlert r cd env m)) k \<noteq> None)
    \<and> (\<forall>k. k \<noteq> alert_id a \<longrightarrow>
          store (snd (triggerAlert r cd env m)) k = store m k \<and>
          map_of (activeAlerts (snd (triggerAlert r cd env m))) k = map_of (activeAlerts m) k)
    \<and> timers (snd (triggerAlert r cd env m)) = timers m"
proof -
  let ?m' = "snd (triggerAlert r cd env m)"
  have 1: "map_of (activeAlerts ?m') (alert_id a) = None \<and>
            ((\<forall>x \<in> set (activeAlerts m). snd x = r \<longrightarrow> fst x = alert_id a) \<longrightarrow>
               r \<notin> set (map snd (activeAlerts ?m'))) \<and>
            (\<exists>s. store ?m' (alert_id a) = Some s \<and>
                isTriggered s \<and> triggerCount s = triggerCount a + 1 \<and>
                lastTriggered s = Some (clock m) \<and> metadata s = metadata a \<and> type s = type a)"
    if full: "fst (triggerAlert_try r cd env m) = None"
  proof -
    from triggerAlert_effect(7) [OF a full]
    obtain s where s: "store ?m' (alert_id a) = Some s" "triggered_from a (clock m) s"
      and idx: "activeAlerts ?m' = AList.delete (alert_id a) (activeAlerts m)"
      using one by auto
    have i: "map_of (activeAlerts ?m') (alert_id a) = None"
      unfolding idx by (simp add: delete_conv')
    have ii: "(\<forall>x \<in> set (activeAlerts m). snd x = r \<longrightarrow> fst x = alert_id a) \<longrightarrow>
          r \<notin> set (map snd (activeAlerts ?m'))"
      unfolding idx by (auto simp: AList.delete_eq)
    have iii: "\<exists>s. store ?m' (alert_id a) = Some s \<and>
            isTriggered s \<and> triggerCount s = triggerCount a + 1 \<and>
            lastTriggered s = Some (clock m) \<and> metadata s = metadata a \<and> type s = type a"
      using s by (auto simp: triggered_from_def same_setup_def)
    show ?thesis using i ii iii by blast
  qed
  have 2: "\<forall>k. store m k \<noteq> None \<longrightarrow> store ?m' k \<noteq> None"
    using triggerAlert_effect(9) [OF a, where cd = cd and env = env] by blast
  have 3: "\<forall>k. k \<noteq> alert_id a \<longrightarrow>
          store ?m' k = store m k \<and> map_of (activeAlerts ?m') k = map_of (activeAlerts m) k"
  proof (intro allI impI conjI)
    fix k assume k: "k \<noteq> alert_id a"
    show "store ?m' k = store m k"
      using triggerAlert_effect(6) [OF a k, of cd env] .
    show "map_of (activeAlerts ?m') k = map_of (activeAlerts m) k"
      using triggerAlert_effect(8) [OF a, of cd env] k by (auto simp: delete_conv')
  qed
  have 4: "timers ?m' = timers m"
    using triggerAlert_effect(3) [OF a, of cd env] one by (simp add: reset_timer_def)
  show ?thesis using 1 2 3 4 by blast
qed

theorem one_shot_removed_not_deleted_witness:
  "map_of (activeAlerts (example_monitor (repeating 0 1) (observed 45250))) ''a1'' = Some 0
   \<and> fst (triggerAlert_try 0 (observed 45250) example_env
            (example_monitor (repeating 0 1) (observed 45250))) = None
   \<and> map_of (activeAlerts (snd (triggerAlert 0 (observed 45250) example_env
            (example_monitor (repeating 0 1) (observed 45250))))) ''a1'' = None
   \<and> 0 \<notin> set (map snd (activeAlerts (snd (triggerAlert 0 (observed 45250) example_env
            (example_monitor (repeating 0 1) (observed 45250))))))
   \<and> (\<exists>s. store (snd (triggerAlert 0 (observed 45250) example_env
            (example_monitor (repeating 0 1) (observed 45250)))) ''a1'' = Some s \<and>
          isTriggered s \<and> triggerCount s = 1 \<and> lastTriggered s = Some 0)"
proof -
  let ?m = "example_monitor (repeating 0 1) (observed 45250)"
  have a: "heap ?m 0 = Some (repeating 0 1)"
    by (simp add: example_monitor_def)
  have one: "repeatInterval (metadata (repeating 0 1)) = 0"
    by (simp add: repeating_def)
  have full: "fst (triggerAlert_try 0 (observed 45250) example_env ?m) = None"
    by (simp add: run_defs example_defs Let_def)
  have f: "alert_id (repeating 0 1) = ''a1''" "triggerCount (repeating 0 1) = 0" "clock ?m = 0"
      "activeAlerts ?m = [(''a1'', 0)]"
    by (simp_all add: example_defs)
  show ?thesis
    using one_shot_removed_not_deleted [OF a one, of "observed 45250" example_env] full
    unfolding f by auto
qed

text \<open>
  C8. When the batched fetch of \<open>updatePrices\<close> throws, the method returns
  normally, the price cache is what it was (so is the index and every alert), and
  the error is logged. The next evaluation cycle returns normally too, and (in
  every state that the running monitor reaches) it evaluates every indexed alert
  whose symbol has a cache entry against that (stale) entry: the entry's price joins the alert's price history, and the alert is
  triggered (flag set, count one higher, trigger time recorded) exactly when
  \<open>shouldTrigger\<close> holds of the alert and the stale entry; otherwise the new
  history entry is all that changes in the alert.
\<close>

theorem updatePrices_fetch_failure:
  assumes f: "fetch (monitored_symbols m) = Inl e"
  shows "fst (updatePrices fetch m) = None
    \<and> priceCache (snd (updatePrices fetch m)) = priceCache m
    \<and> heap (snd (updatePrices fetch m)) = heap m
    \<and> activeAlerts (snd (updatePrices fetch m)) = activeAlerts m
    \<and> (activeAlerts m \<noteq> [] \<and> monitored_symbols m \<noteq> [] \<longrightarrow>
         console (snd (updatePrices fetch m)) = console m @ [''Error updating prices''])
    \<and> fst (processAlerts env (snd (updatePrices fetch m))) = None
    \<and> (reachable m \<longrightarrow>
        (\<forall>k r a obs. (k, r) \<in> set (activeAlerts m) \<and> heap m r = Some a \<and>
                    priceCache m (toLowerCase (symbol a)) = Some obs \<longrightarrow>
         (\<exists>a'. heap (snd (processAlerts env (snd (updatePrices fetch m)))) r = Some a' \<and>
               priceHistory a' =
                 priceHistory (addPriceHistory a (price obs) ''coingecko'' (clock m)) \<and>
               (if shouldTrigger a obs (clock m)
                then isTriggered a' \<and> triggerCount a' = triggerCount a + 1 \<and>
                     lastTriggered a' = Some (clock m)
                else a' = addPriceHistory a (price obs) ''coingecko'' (clock m)))))"
proof -
  let ?m' = "snd (updatePrices fetch m)"
  have 1: "fst (updatePrices fetch m) = None"
    by (simp add: updatePrices_def try_catch_def split: sum.splits)
  have 2: "priceCache ?m' = priceCache m"
    using f by (simp add: updatePrices_def try_catch_def)
  have 3: "activeAlerts m \<noteq> [] \<and> monitored_symbols m \<noteq> [] \<longrightarrow>
         console ?m' = console m @ [''Error updating prices'']"
    using f by (simp add: updatePrices_def try_catch_def console_log_def)
  have 4: "\<exists>a'. heap (snd (processAlerts env ?m')) r = Some a' \<and>
               priceHistory a' =
                 priceHistory (addPriceHistory a (price obs) ''coingecko'' (clock m)) \<and>
               (if shouldTrigger a obs (clock m)
                then isTriggered a' \<and> triggerCount a' = triggerCount a + 1 \<and>
                     lastTriggered a' = Some (clock m)
                else a' = addPriceHistory a (price obs) ''coingecko'' (clock m))"
    if re: "reachable m" and h: "(k, r) \<in> set (activeAlerts m)" "heap m r = Some a"
      "priceCache m (toLowerCase (symbol a)) = Some obs" for k r a obs
  proof -
    have "well_formed ?m'"
      using reachable_well_formed [OF re] well_formed_same [of ?m' m] by simp
    then have ok: "index_ok ?m'" by (simp add: well_formed_def)
    have idx: "(k, r) \<in> set (activeAlerts ?m')" using h(1) by simp
    have a: "heap ?m' r = Some a" using h(2) by simp
    have c: "priceCache ?m' (toLowerCase (symbol a)) = Some obs" using h(3) 2 by simp
    note ce = cycle_effect [OF ok idx a c, where env = env]
    show ?thesis
    proof (cases "shouldTrigger a obs (clock m)")
      case True
      then show ?thesis
        using ce(3) by (auto simp: triggered_from_def)
    next
      case False
      then show ?thesis
        using ce(4) by simp
    qed
  qed
  have 5: "reachable m \<longrightarrow>
        (\<forall>k r a obs. (k, r) \<in> set (activeAlerts m) \<and> heap m r = Some a \<and>
                    priceCache m (toLowerCase (symbol a)) = Some obs \<longrightarrow>
         (\<exists>a'. heap (snd (processAlerts env ?m')) r = Some a' \<and>
               priceHistory a' =
                 priceHistory (addPriceHistory a (price obs) ''coingecko'' (clock m)) \<and>
               (if shouldTrigger a obs (clock m)
                then isTriggered a' \<and> triggerCount a' = triggerCount a + 1 \<and>
                     lastTriggered a' = Some (clock m)
                else a' = addPriceHistory a (price obs) ''coingecko'' (clock m))))"
    using 4 by blast
  have 6: "heap ?m' = heap m" "activeAlerts ?m' = activeAlerts m" by simp_all
  show ?thesis
    using 1 2 6 3 fst_processAlerts [of env ?m'] 5 by blast
qed

theorem updatePrices_fetch_failure_witness:
  "reachable (example_monitor (repeating 0 1) (observed 45250))
   \<and> monitored_symbols (example_monitor (repeating 0 1) (observed 45250)) = [''btc'']
   \<and> fst (updatePrices (\<lambda>symbols. Inl FetchError)
            (example_monitor (repeating 0 1) (observed 45250))) = None
   \<and> priceCache (snd (updatePrices (\<lambda>symbols. Inl FetchError)
            (example_monitor (repeating 0 1) (observed 45250)))) ''btc'' = Some (observed 45250)
   \<and> console (snd (updatePrices (\<lambda>symbols. Inl FetchError)
            (example_monitor (repeating 0 1) (observed 45250)))) = [''Error updating prices'']
   \<and> shouldTrigger (repeating 0 1) (observed 45250) 0
   \<and> (\<exists>a'. heap (snd (processAlerts (\<lambda>r. example_env)
              (snd (updatePrices (\<lambda>symbols. Inl FetchError)
                (example_monitor (repeating 0 1) (observed 45250)))))) 0 = Some a' \<and>
          map h_price (priceHistory a') = [Number (Fin 45250)] \<and>
          isTriggered a' \<and> triggerCount a' = 1 \<and> lastTriggered a' = Some 0)
   \<and> \<not> shouldTrigger (repeating 0 1) (observed 44000) 0
   \<and> (\<exists>a'. heap (snd (processAlerts (\<lambda>r. example_env)
              (snd (updatePrices (\<lambda>symbols. Inl FetchError)
                (example_monitor (repeating 0 1) (observed 44000)))))) 0 = Some a' \<and>
          map h_price (priceHistory a') = [Number (Fin 44000)] \<and>
          \<not> isTriggered a' \<and> triggerCount a' = 0)"
proof -
  let ?f = "\<lambda>symbols :: string list. (Inl FetchError :: exn + (string \<times> api_price) list)"
  let ?a = "repeating 0 1"
  let ?env = "\<lambda>r :: ref. example_env"
  have re: "reachable (example_monitor ?a obs)" for obs
    by (rule reachable.start)
       (simp add: started_def index_ok_def ids_def example_monitor_def)
  have s: "monitored_symbols (example_monitor ?a obs) = [''btc'']" for obs
    by (simp add: monitored_symbols_def example_monitor_def List.map_filter_simps
        repeating_def alert_of_kind_def default_alert_def toLowerCase_BTC)
  have f: "activeAlerts (example_monitor ?a obs) \<noteq> []"
      "heap (example_monitor ?a obs) 0 = Some ?a" "console (example_monitor ?a obs) = []"
      "priceCache (example_monitor ?a obs) (toLowerCase (symbol ?a)) = Some obs"
      "priceCache (example_monitor ?a obs) ''btc'' = Some obs"
      "(''a1'', 0) \<in> set (activeAlerts (example_monitor ?a obs))"
      "clock (example_monitor ?a obs) = 0" "triggerCount ?a = 0" for obs
    by (simp_all add: example_defs toLowerCase_BTC)
  have h: "?f (monitored_symbols (example_monitor ?a obs)) = Inl FetchError" for obs by simp
  have R: "fst (updatePrices ?f (example_monitor ?a obs)) = None
      \<and> priceCache (snd (updatePrices ?f (example_monitor ?a obs))) ''btc'' = Some obs
      \<and> console (snd (updatePrices ?f (example_monitor ?a obs))) = [''Error updating prices'']"
    for obs
    using updatePrices_fetch_failure
        [where fetch = ?f and m = "example_monitor ?a obs" and e = FetchError and env = ?env,
         OF h]
      s [of obs] f(1,3,5) [of obs]
    by simp
  have E: "\<exists>a'. heap (snd (processAlerts ?env (snd (updatePrices ?f (example_monitor ?a obs))))) 0 =
            Some a' \<and>
          priceHistory a' = priceHistory (addPriceHistory ?a (price obs) ''coingecko''
                                            (clock (example_monitor ?a obs))) \<and>
          (if shouldTrigger ?a obs (clock (example_monitor ?a obs))
           then isTriggered a' \<and> triggerCount a' = triggerCount ?a + 1 \<and>
                lastTriggered a' = Some (clock (example_monitor ?a obs))
           else a' = addPriceHistory ?a (price obs) ''coingecko''
                       (clock (example_monitor ?a obs)))" for obs
    using updatePrices_fetch_failure
        [where fetch = ?f and m = "example_monitor ?a obs" and e = FetchError and env = ?env,
         OF h]
      re [of obs] f(6) [of obs] f(2) [of obs] f(4) [of obs]
    by blast
  have st: "shouldTrigger ?a (observed 45250) 0" "\<not> shouldTrigger ?a (observed 44000) 0"
    by (simp_all add: shouldTrigger_def kind_condition_def js_ge_def expired_def example_defs)
  have ph: "map h_price (priceHistory (addPriceHistory ?a (price (observed x)) ''coingecko'' 0)) =
      [Number (Fin x)]"
      "\<not> isTriggered (addPriceHistory ?a (price (observed x)) ''coingecko'' 0)"
      "triggerCount (addPriceHistory ?a (price (observed x)) ''coingecko'' 0) = 0" for x
    by (simp_all add: addPriceHistory_def Let_def example_defs)
  from E [of "observed 45250"] obtain a1 where
    a1: "heap (snd (processAlerts ?env (snd (updatePrices ?f
            (example_monitor ?a (observed 45250)))))) 0 = Some a1"
      "priceHistory a1 = priceHistory (addPriceHistory ?a (price (observed 45250)) ''coingecko'' 0)"
      "isTriggered a1 \<and> triggerCount a1 = 1 \<and> lastTriggered a1 = Some 0"
    unfolding f(7,8) using st(1) by auto
  from E [of "observed 44000"] have
    a2: "heap (snd (processAlerts ?env (snd (updatePrices ?f
            (example_monitor ?a (observed 44000)))))) 0 =
          Some (addPriceHistory ?a (price (observed 44000)) ''coingecko'' 0)"
    unfolding f(7,8) using st(2) by auto
  have A: "\<exists>a'. heap (snd (processAlerts ?env (snd (updatePrices ?f
              (example_monitor ?a (observed 45250)))))) 0 = Some a' \<and>
          map h_price (priceHistory a') = [Number (Fin 45250)] \<and>
          isTriggered a' \<and> triggerCount a' = 1 \<and> lastTriggered a' = Some 0"
    using a1 ph(1) [of 45250] by simp
  have B: "\<exists>a'. heap (snd (processAlerts ?env (snd (updatePrices ?f
              (example_monitor ?a (observed 44000)))))) 0 = Some a' \<and>
          map h_price (priceHistory a') = [Number (Fin 44000)] \<and>
          \<not> isTriggered a' \<and> triggerCount a' = 0"
    using a2 ph [of 44000] by simp
  show ?thesis
    using re [of "observed 45250"] s [of "observed 45250"] R [of "observed 45250"] st A B
    by blast
qed

text \<open>
  C10. After a successful \<open>updateAlert\<close> the store holds the updated document,
  and the id is a key of the index if and only if the updated document is active and
  not triggered; in that case the index entry is the updated document. Every entry
  under another key is where and what it was, and no other alert object changes.
\<close>

theorem updateAlert_index:
  assumes "updateAlert alertId updateData dbOk m = (None, m')"
  shows "\<exists>d0. store m alertId = Some d0 \<and>
      store m' alertId = Some ((updateData d0)\<lparr>alert_id := alert_id d0\<rparr>) \<and>
      (alertId \<in> fst ` set (activeAlerts m') \<longleftrightarrow>
         isActive (updateData d0) \<and> \<not> isTriggered (updateData d0)) \<and>
      (isActive (updateData d0) \<and> \<not> isTriggered (updateData d0) \<longrightarrow>
         (\<exists>r. map_of (activeAlerts m') alertId = Some r \<and>
              heap m' r = Some ((updateData d0)\<lparr>alert_id := alert_id d0\<rparr>))) \<and>
      filter (\<lambda>x. fst x \<noteq> alertId) (activeAlerts m') =
        filter (\<lambda>x. fst x \<noteq> alertId) (activeAlerts m) \<and>
      (\<forall>k. k \<noteq> alertId \<longrightarrow> map_of (activeAlerts m') k = map_of (activeAlerts m) k) \<and>
      (\<forall>r. r \<noteq> next_ref m \<longrightarrow> heap m' r = heap m r)"
proof -
  from assms have ok: "dbOk"
    by (auto simp: updateAlert_def findByIdAndUpdate_def split: if_splits)
  from assms ok obtain d0 where d0: "store m alertId = Some d0"
    by (cases "store m alertId") (auto simp: updateAlert_def findByIdAndUpdate_def)
  let ?d = "(updateData d0)\<lparr>alert_id := alert_id d0\<rparr>"
  let ?m1 = "m\<lparr>store := (store m)(alertId \<mapsto> ?d),
               heap := (heap m)(next_ref m \<mapsto> ?d),
               next_ref := Suc (next_ref m)\<rparr>"
  have m': "m' = (if isActive (updateData d0) \<and> \<not> isTriggered (updateData d0)
                  then ?m1\<lparr>activeAlerts := AList.update alertId (next_ref m) (activeAlerts m)\<rparr>
                  else ?m1\<lparr>activeAlerts := AList.delete alertId (activeAlerts m)\<rparr>)"
    using assms ok d0 by (auto simp: updateAlert_def findByIdAndUpdate_def Let_def split: if_splits)
  have upd_other: "filter (\<lambda>x. fst x \<noteq> k) (AList.update k v al) = filter (\<lambda>x. fst x \<noteq> k) al"
    for k :: string and v :: ref and al
    by (induction al) auto
  have del_other: "filter (\<lambda>x. fst x \<noteq> k) (AList.delete k al) = filter (\<lambda>x. fst x \<noteq> k) al"
    for k :: string and al :: "(string \<times> ref) list"
    by (induction al) auto
  show ?thesis
  proof (cases "isActive (updateData d0) \<and> \<not> isTriggered (updateData d0)")
    case True
    then show ?thesis
      using d0 m' upd_other [of alertId "next_ref m" "activeAlerts m"]
      by (auto simp: update_conv' dom_update image_iff intro!: exI [of _ d0])
  next
    case False
    then show ?thesis
      using d0 m' del_other [of alertId "activeAlerts m"]
      by (auto simp: delete_conv' delete_notin_dom intro!: exI [of _ d0])
  qed
qed

theorem updateAlert_index_witness:
  "fst (updateAlert ''a1'' (\<lambda>d. d\<lparr>isActive := False\<rparr>) True
          (example_monitor default_alert (observed 44000))) = None
   \<and> ''a1'' \<notin> fst ` set (activeAlerts (snd (updateAlert ''a1'' (\<lambda>d. d\<lparr>isActive := False\<rparr>) True
          (example_monitor default_alert (observed 44000)))))
   \<and> fst (updateAlert ''a1'' (\<lambda>d. d\<lparr>isActive := True\<rparr>) True
          (snd (updateAlert ''a1'' (\<lambda>d. d\<lparr>isActive := False\<rparr>) True
            (example_monitor default_alert (observed 44000))))) = None
   \<and> ''a1'' \<in> fst ` set (activeAlerts (snd (updateAlert ''a1'' (\<lambda>d. d\<lparr>isActive := True\<rparr>) True
          (snd (updateAlert ''a1'' (\<lambda>d. d\<lparr>isActive := False\<rparr>) True
            (example_monitor default_alert (observed 44000)))))))"
proof -
  let ?m = "example_monitor default_alert (observed 44000)"
  let ?off = "\<lambda>d :: alert. d\<lparr>isActive := False\<rparr>"
  let ?on = "\<lambda>d :: alert. d\<lparr>isActive := True\<rparr>"
  let ?m1 = "snd (updateAlert ''a1'' ?off True ?m)"
  let ?m2 = "snd (updateAlert ''a1'' ?on True ?m1)"
  have e1: "fst (updateAlert ''a1'' ?off True ?m) = None"
    by (simp add: updateAlert_def findByIdAndUpdate_def example_monitor_def default_alert_def Let_def)
  then have u1: "updateAlert ''a1'' ?off True ?m = (None, ?m1)"
    by (metis prod.collapse)
  have s0: "store ?m ''a1'' = Some default_alert"
    by (simp add: example_monitor_def default_alert_def)
  from updateAlert_index [OF u1] s0
  have r1: "store ?m1 ''a1'' = Some ((?off default_alert)\<lparr>alert_id := alert_id default_alert\<rparr>)"
      "''a1'' \<notin> fst ` set (activeAlerts ?m1)"
    by auto
  have e2: "fst (updateAlert ''a1'' ?on True ?m1) = None"
    using r1(1) by (simp add: updateAlert_def findByIdAndUpdate_def Let_def default_alert_def)
  then have u2: "updateAlert ''a1'' ?on True ?m1 = (None, ?m2)"
    by (metis prod.collapse)
  from updateAlert_index [OF u2] r1(1)
  have r2: "''a1'' \<in> fst ` set (activeAlerts ?m2)"
    by (auto simp: default_alert_def)
  show ?thesis using e1 r1(2) e2 r2 by simp
qed

section \<open>Notification channels\<close>

text \<open>
  C3 on the code. In scenario 4 the owner's phone number has received 20 messages
  within the hour. \<open>sendEmail\<close> fails inside its own \<open>try\<close> block (the template)
  and returns; \<open>sendSMS\<close> throws "SMS rate limit exceeded" before its own \<open>try\<close>
  block; the one \<open>try\<close> block of \<open>sendAlertNotifications\<close> catches that after
  the push statement has been skipped. Nothing is handed to any provider, although
  the alert counts as triggered. One message earlier the SMS goes out, which brings
  the counter to 20, and so does the push notification; and a provider that rejects
  the SMS (an error inside \<open>sendSMS\<close>'s \<open>try\<close>) does not stop the push
  notification.
\<close>

theorem sms_rate_limit_skips_push:
  "fst (sendAlertNotifications 0 (observed 45250) example_env (sms_sent 20)) = None
   \<and> outbox (snd (sendAlertNotifications 0 (observed 45250) example_env (sms_sent 20))) = []
   \<and> console (snd (sendAlertNotifications 0 (observed 45250) example_env (sms_sent 20))) =
       [''Error sending email'', ''Rate limit exceeded'', ''Error sending alert notifications'']
   \<and> outbox (run (sms_sent 20) [cycle]) = []
   \<and> map_option triggerCount (heap (run (sms_sent 20) [cycle]) 0) = Some 1
   \<and> map_option (\<lambda>a. sent (push (notifications a))) (heap (run (sms_sent 20) [cycle]) 0) =
       Some False
   \<and> activeAlerts (run (sms_sent 20) [cycle]) = []
   \<and> outbox (run (sms_sent 19) [cycle]) =
       [\<lparr>d_channel = Sms, d_to = ''+15551234567'', d_ok = True\<rparr>,
        \<lparr>d_channel = Push, d_to = ''u1'', d_ok = True\<rparr>]
   \<and> map_option (\<lambda>e. count (fst e))
       (rateCache (run (sms_sent 19) [cycle]) ''rate_limit_sms_5551234567'') = Some 20
   \<and> outbox (run (sms_sent 19) [ProcessAlerts (\<lambda>r. example_env\<lparr>smsDelivered := False\<rparr>)]) =
       [\<lparr>d_channel = Sms, d_to = ''+15551234567'', d_ok = False\<rparr>,
        \<lparr>d_channel = Push, d_to = ''u1'', d_ok = True\<rparr>]"
  by (simp add: sms_sent_def all_channels_def cycle_def run_defs example_defs
      toLowerCase_BTC Let_def)

end
